theory Spec2Isabelle
  imports
    Complex_Main
    "HOL-Library.Char_ord"
    "HOL-Library.List_Lexorder"
    "HOL-Library.Sublist"
    "HOL-Library.Multiset"
begin

section \<open>Strings\<close>

text \<open>
  Python strings are modelled as \<^typ>\<open>string\<close>: a list of characters, each a code
  point in the range U+0000 .. U+00FF. The order on strings (used by SQLite to compare
  the \<open>date\<close> column) is the lexicographic order on code points.
\<close>

definition DQUOTE :: char where "DQUOTE = CHR 0x22"
definition BACKSLASH :: char where "BACKSLASH = CHR 0x5C"
definition NEWLINE :: char where "NEWLINE = CHR 0x0A"

text \<open>\<open>str.isspace\<close> on the code points below U+0100.\<close>

definition isspace :: "char \<Rightarrow> bool" where
  "isspace c = ((of_char c :: nat) \<in> {9, 10, 11, 12, 13, 28, 29, 30, 31, 32, 133, 160})"

text \<open>\<open>s.strip()\<close>, \<open>s.lstrip(chars)\<close> and \<open>s.startswith(p)\<close>.\<close>

definition strip :: "string \<Rightarrow> string" where
  "strip s = rev (dropWhile isspace (rev (dropWhile isspace s)))"

definition lstrip :: "string \<Rightarrow> string \<Rightarrow> string" where
  "lstrip chars s = dropWhile (\<lambda>c. c \<in> set chars) s"

definition startswith :: "string \<Rightarrow> string \<Rightarrow> bool" where
  "startswith s p = (take (length p) s = p)"

text \<open>\<open>sep.join(xs)\<close>.\<close>

fun join :: "string \<Rightarrow> string list \<Rightarrow> string" where
  "join sep [] = []"
| "join sep [x] = x"
| "join sep (x # y # ys) = x @ sep @ join sep (y # ys)"

text \<open>
  \<open>s.split()\<close> without arguments: the maximal runs of non-whitespace characters, in
  order. \<open>split_from w s\<close> scans \<open>s\<close> with the word \<open>w\<close> read so far.
\<close>

fun split_from :: "string \<Rightarrow> string \<Rightarrow> string list" where
  "split_from w [] = (if w = [] then [] else [w])"
| "split_from w (c # cs) =
     (if isspace c then (if w = [] then split_from [] cs else w # split_from [] cs)
      else split_from (w @ [c]) cs)"

definition split :: "string \<Rightarrow> string list" where
  "split s = split_from [] s"

text \<open>\<open>s.split(sep)\<close> for a one-character separator: never empty, keeps empty fields.\<close>

fun split_on :: "char \<Rightarrow> string \<Rightarrow> string list" where
  "split_on sep [] = [[]]"
| "split_on sep (c # cs) =
     (if c = sep then [] # split_on sep cs
      else (case split_on sep cs of [] \<Rightarrow> [[c]] | l # ls \<Rightarrow> (c # l) # ls))"

text \<open>\<open>s.find(p)\<close> and \<open>s.rfind(p)\<close>: the lowest and the highest start index of an
  occurrence of \<open>p\<close>, or \<open>-1\<close>.\<close>

fun find_from :: "nat \<Rightarrow> string \<Rightarrow> string \<Rightarrow> int" where
  "find_from i p [] = (if p = [] then int i else -1)"
| "find_from i p (c # cs) =
     (if startswith (c # cs) p then int i else find_from (Suc i) p cs)"

definition find_str :: "string \<Rightarrow> string \<Rightarrow> int" where
  "find_str s p = find_from 0 p s"

fun rfind_from :: "nat \<Rightarrow> string \<Rightarrow> string \<Rightarrow> int" where
  "rfind_from i p [] = (if p = [] then int i else -1)"
| "rfind_from i p (c # cs) =
     (let later = rfind_from (Suc i) p cs
      in if later \<noteq> -1 then later else if startswith (c # cs) p then int i else -1)"

definition rfind_str :: "string \<Rightarrow> string \<Rightarrow> int" where
  "rfind_str s p = rfind_from 0 p s"

text \<open>\<open>s.replace(old, new)\<close> for a non-empty \<open>old\<close>: the non-overlapping occurrences,
  leftmost first.\<close>

function replace :: "string \<Rightarrow> string \<Rightarrow> string \<Rightarrow> string" where
  "replace old new [] = []"
| "replace old new (c # cs) =
     (if old \<noteq> [] \<and> startswith (c # cs) old
      then new @ replace old new (drop (length old) (c # cs))
      else c # replace old new cs)"
  by pat_completeness auto
termination
  by (relation "measure (\<lambda>(old, new, s). length s)") (auto simp: neq_Nil_conv)


section \<open>The JSON text of a list of strings\<close>

text \<open>
  \<open>json.dumps(xs)\<close> for a list of strings, with the library's defaults
  (\<open>ensure_ascii=True\<close>, separator \<open>", "\<close>): every character outside the printable
  ASCII range, the double quote and the backslash are escaped.
\<close>

definition hexdigit :: "nat \<Rightarrow> char" where
  "hexdigit d = (''0123456789abcdef'') ! d"

definition escape_char :: "char \<Rightarrow> string" where
  "escape_char c =
     (if c = DQUOTE then [BACKSLASH, DQUOTE]
      else if c = BACKSLASH then [BACKSLASH, BACKSLASH]
      else if c = NEWLINE then [BACKSLASH, CHR ''n'']
      else if c = CHR 0x0D then [BACKSLASH, CHR ''r'']
      else if c = CHR 0x09 then [BACKSLASH, CHR ''t'']
      else if c = CHR 0x08 then [BACKSLASH, CHR ''b'']
      else if c = CHR 0x0C then [BACKSLASH, CHR ''f'']
      else if 32 \<le> (of_char c :: nat) \<and> (of_char c :: nat) \<le> 126 then [c]
      else [BACKSLASH, CHR ''u'', CHR ''0'', CHR ''0'',
            hexdigit ((of_char c :: nat) div 16), hexdigit ((of_char c :: nat) mod 16)])"

definition encode_str :: "string \<Rightarrow> string" where
  "encode_str s = DQUOTE # concat (map escape_char s) @ [DQUOTE]"

definition json_dumps :: "string list \<Rightarrow> string" where
  "json_dumps xs = ''['' @ join '', '' (map encode_str xs) @ '']''"

text \<open>
  Reading the column back: \<open>json.loads(text)\<close> followed by the validation of the
  \<open>list[str]\<close> field of \<open>Meeting\<close>. The two together succeed exactly on the JSON text of
  an array whose elements are all string literals, which is what \<open>json_loads\<close> decodes.
  Whatever else the column holds makes one of the two raise (\<open>NotAStringList\<close>). A
  \<open>\uXXXX\<close> escape above U+00FF names a character outside the alphabet of this model
  (\<open>OutsideAlphabet\<close>); \<open>json_dumps\<close> never writes one.

  The other two errors of the store are raised by \<open>sqlite3\<close>: \<open>OverflowError\<close> when a
  Python integer that does not fit the signed 64-bit \<open>INTEGER\<close> of SQLite is bound to a
  parameter, and \<open>OperationalError\<close> when the engine refuses a statement.
\<close>

datatype store_error = NotAStringList | OutsideAlphabet | OverflowError | OperationalError

definition json_ws :: "char \<Rightarrow> bool" where
  "json_ws c = (c = CHR '' '' \<or> c = CHR 0x09 \<or> c = NEWLINE \<or> c = CHR 0x0D)"

definition skip_ws :: "string \<Rightarrow> string" where
  "skip_ws s = dropWhile json_ws s"

definition hexval :: "char \<Rightarrow> nat option" where
  "hexval c =
     (let n = (of_char c :: nat)
      in if 48 \<le> n \<and> n \<le> 57 then Some (n - 48)
         else if 97 \<le> n \<and> n \<le> 102 then Some (n - 87)
         else if 65 \<le> n \<and> n \<le> 70 then Some (n - 55)
         else None)"

definition hex4 :: "char \<Rightarrow> char \<Rightarrow> char \<Rightarrow> char \<Rightarrow> nat option" where
  "hex4 a b c d =
     (case (hexval a, hexval b, hexval c, hexval d) of
        (Some x, Some y, Some z, Some w) \<Rightarrow> Some (((x * 16 + y) * 16 + z) * 16 + w)
      | _ \<Rightarrow> None)"

definition simple_escape :: "char \<Rightarrow> char option" where
  "simple_escape e =
     (if e = DQUOTE then Some DQUOTE
      else if e = BACKSLASH then Some BACKSLASH
      else if e = CHR ''/'' then Some (CHR ''/'')
      else if e = CHR ''b'' then Some (CHR 0x08)
      else if e = CHR ''f'' then Some (CHR 0x0C)
      else if e = CHR ''n'' then Some NEWLINE
      else if e = CHR ''r'' then Some (CHR 0x0D)
      else if e = CHR ''t'' then Some (CHR 0x09)
      else None)"

definition cons_result ::
  "char \<Rightarrow> store_error + string \<times> string \<Rightarrow> store_error + string \<times> string" where
  "cons_result c r = (case r of Inl e \<Rightarrow> Inl e | Inr (s, rest) \<Rightarrow> Inr (c # s, rest))"

text \<open>\<open>scanstring\<close>: the input starts after the opening quote; the result is the decoded
  string and the input after the closing quote.\<close>

fun scanstring :: "string \<Rightarrow> store_error + string \<times> string" where
  "scanstring [] = Inl NotAStringList"
| "scanstring (c # cs) =
     (if c = DQUOTE then Inr ([], cs)
      else if c = BACKSLASH then
        (case cs of
           [] \<Rightarrow> Inl NotAStringList
         | e # cs' \<Rightarrow>
             if e = CHR ''u'' then
               (case cs' of
                  h1 # h2 # h3 # h4 # rest \<Rightarrow>
                    (case hex4 h1 h2 h3 h4 of
                       None \<Rightarrow> Inl NotAStringList
                     | Some n \<Rightarrow>
                         if n < 256 then cons_result (char_of n) (scanstring rest)
                         else Inl OutsideAlphabet)
                | _ \<Rightarrow> Inl NotAStringList)
             else
               (case simple_escape e of
                  None \<Rightarrow> Inl NotAStringList
                | Some ch \<Rightarrow> cons_result ch (scanstring cs')))
      else if (of_char c :: nat) < 32 then Inl NotAStringList
      else cons_result c (scanstring cs))"

lemma cons_result_rest:
  "cons_result c r = Inr (s, rest) \<Longrightarrow> \<exists>s'. r = Inr (s', rest)"
  by (auto simp: cons_result_def split: sum.splits prod.splits)

lemma scanstring_shorter:
  "scanstring inp = Inr (s, rest) \<Longrightarrow> length rest < length inp"
proof (induction inp arbitrary: s rule: scanstring.induct)
  case 1
  then show ?case by simp
next
  case (2 c cs)
  show ?case
  proof (cases "c = DQUOTE")
    case True
    with "2.prems" show ?thesis by simp
  next
    case notq: False
    show ?thesis
    proof (cases "c = BACKSLASH")
      case False
      with notq "2.prems" obtain s' where "scanstring cs = Inr (s', rest)"
        by (auto split: if_splits dest: cons_result_rest)
      with "2.IH"(3) [OF notq False] "2.prems" notq False show ?thesis
        by (fastforce split: if_splits)
    next
      case bs: True
      with notq "2.prems" obtain e cs' where cs: "cs = e # cs'"
        by (cases cs) auto
      show ?thesis
      proof (cases "e = CHR ''u''")
        case False
        with notq bs cs "2.prems" obtain ch s' where
          "simple_escape e = Some ch" "scanstring cs' = Inr (s', rest)"
          by (auto split: option.splits dest: cons_result_rest)
        with "2.IH"(2) [OF notq bs cs False] show ?thesis
          using cs by fastforce
      next
        case u: True
        with notq bs cs "2.prems" obtain h1 h2 h3 h4 r n s' where
          r: "cs' = h1 # h2 # h3 # h4 # r" "hex4 h1 h2 h3 h4 = Some n" "n < 256"
             "scanstring r = Inr (s', rest)"
          by (auto split: list.splits option.splits if_splits dest: cons_result_rest)
        have "length rest < length r"
          by (rule "2.IH"(1) [OF notq bs cs u r(1) refl refl refl r(2) r(3) r(4)])
        with cs r(1) show ?thesis by simp
      qed
    qed
  qed
qed

lemma skip_ws_length: "length (skip_ws s) \<le> length s"
  by (simp add: skip_ws_def length_dropWhile_le)

text \<open>The elements of a non-empty array: the input starts at the first element; the
  result is the elements and the input after the closing bracket.\<close>

function parse_items :: "string \<Rightarrow> store_error + string list \<times> string" where
  "parse_items inp =
     (case inp of
        [] \<Rightarrow> Inl NotAStringList
      | c # cs \<Rightarrow>
          if c \<noteq> DQUOTE then Inl NotAStringList
          else
            (case scanstring cs of
               Inl e \<Rightarrow> Inl e
             | Inr (x, rest) \<Rightarrow>
                 (case skip_ws rest of
                    [] \<Rightarrow> Inl NotAStringList
                  | d # rest' \<Rightarrow>
                      if d = CHR '']'' then Inr ([x], rest')
                      else if d = CHR '','' then
                        (case parse_items (skip_ws rest') of
                           Inl e \<Rightarrow> Inl e
                         | Inr (xs, rest'') \<Rightarrow> Inr (x # xs, rest''))
                      else Inl NotAStringList)))"
  by pat_completeness auto
termination
proof (relation "measure length", goal_cases)
  case 1
  show ?case by simp
next
  case (2 inp c cs r x rest d rest')
  have "length rest < length cs"
    using 2 scanstring_shorter [of cs x rest] by simp
  moreover have "length (skip_ws rest) \<le> length rest"
    by (rule skip_ws_length)
  moreover have "length (skip_ws rest') \<le> length rest'"
    by (rule skip_ws_length)
  ultimately show ?case using 2 by simp
qed

declare parse_items.simps [simp del]

definition json_loads :: "string \<Rightarrow> store_error + string list" where
  "json_loads text =
     (case skip_ws text of
        [] \<Rightarrow> Inl NotAStringList
      | c # cs \<Rightarrow>
          if c \<noteq> CHR ''['' then Inl NotAStringList
          else
            (case skip_ws cs of
               [] \<Rightarrow> Inl NotAStringList
             | d # ds \<Rightarrow>
                 if d = CHR '']'' then (if skip_ws ds = [] then Inr [] else Inl NotAStringList)
                 else
                   (case parse_items (d # ds) of
                      Inl e \<Rightarrow> Inl e
                    | Inr (xs, rest) \<Rightarrow>
                        if skip_ws rest = [] then Inr xs else Inl NotAStringList)))"


section \<open>The summarization pipeline (\<open>summarizer.py\<close>)\<close>

text \<open>
  The chat-completion endpoint is an external service. It is a parameter \<open>llm\<close> of the
  model: from its own state (type \<open>'s\<close>), the system prompt and the user message it
  either raises or answers with a message content, which may be \<open>None\<close>. The client
  state holds the endpoint's state and the requests issued so far, in order.
\<close>

datatype exn =
  APIError | TranscriptionError | ValueError | ValidationError | JSONDecodeError | RecursionError

type_synonym request = "string \<times> string"

type_synonym 's endpoint = "'s \<Rightarrow> string \<Rightarrow> string \<Rightarrow> (exn + string option) \<times> 's"

record 's client =
  service :: 's
  requests :: "request list"

definition chat :: "'s endpoint \<Rightarrow> string \<Rightarrow> string \<Rightarrow> 's client \<Rightarrow> (exn + string) \<times> 's client" where
  "chat llm system_prompt user_message c =
     (case llm (service c) system_prompt user_message of
        (answer, s') \<Rightarrow>
          (let c' = c\<lparr>service := s', requests := requests c @ [(system_prompt, user_message)]\<rparr>
           in case answer of
                Inl e \<Rightarrow> (Inl e, c')
              | Inr content \<Rightarrow> (Inr (strip (case content of None \<Rightarrow> [] | Some t \<Rightarrow> t)), c')))"

text \<open>
  \<open>_chunk_transcript\<close>: \<open>words[i:i + max_words]\<close> for \<open>i\<close> in
  \<open>range(0, len(words), max_words)\<close>. A step of zero makes \<open>range\<close> raise, a negative
  step gives the empty range.
\<close>

function slices_of :: "nat \<Rightarrow> 'a list \<Rightarrow> 'a list list" where
  "slices_of n xs = (if n = 0 \<or> xs = [] then [] else take n xs # slices_of n (drop n xs))"
  by pat_completeness auto
termination
  by (relation "measure (\<lambda>(n, xs). length xs)") auto

declare slices_of.simps [simp del]

definition chunk_transcript :: "string \<Rightarrow> int \<Rightarrow> exn + string list" where
  "chunk_transcript text max_words =
     (let words = split text
      in if max_words = 0 then Inl ValueError
         else if max_words < 0 then Inr []
         else Inr (map (join '' '') (slices_of (nat max_words) words)))"

text \<open>
  \<open>_parse_json_list\<close>. The decoder \<open>json.loads\<close> is a parameter \<open>loads\<close>: it gives the
  decoded value, of whatever shape, or raises. It raises \<open>JSONDecodeError\<close> on a text
  that is not JSON, and it can raise other exceptions: \<open>RecursionError\<close> on a text
  nested deeper than the interpreter's recursion limit, a plain \<open>ValueError\<close> on an
  integer literal longer than the interpreter's digit limit. The \<open>except\<close> clause of the
  function catches \<open>JSONDecodeError\<close> only. The function returns either the decoded
  value or the list of lines of the fallback. The characters that \<open>lstrip\<close> removes are
  those of the source that lie in the alphabet of the model.
\<close>

datatype 'v parsed = Decoded 'v | Lines "string list"

definition slice :: "string \<Rightarrow> int \<Rightarrow> int \<Rightarrow> string" where
  "slice s i j = take (nat (j - i)) (drop (nat i) s)"

definition code_prefixes :: "string list" where
  "code_prefixes =
     [''import'', ''def '', ''for '', ''action_'', ''meeting_'', ''#'', ''json'', ''print'']"

definition bullet_chars :: string where
  \<open>bullet_chars = ''-*0123456789. "''\<close>

definition clean_response :: "string \<Rightarrow> string" where
  "clean_response response =
     (let cleaned = strip response;
          cleaned = strip (replace ''```'' [] (replace ''```json'' [] cleaned));
          start = find_str cleaned ''['';
          end = rfind_str cleaned '']'' + 1
      in if start \<noteq> -1 \<and> end > start then slice cleaned start end else cleaned)"

definition fallback_lines :: "string \<Rightarrow> string list" where
  "fallback_lines response =
     map (\<lambda>line. lstrip bullet_chars (strip line))
       (filter (\<lambda>line. strip line \<noteq> []
                       \<and> strip line \<notin> set [''['', '']'']
                       \<and> \<not> list_ex (startswith (strip line)) code_prefixes)
               (split_on NEWLINE response))"

definition parse_json_list :: "(string \<Rightarrow> exn + 'v) \<Rightarrow> string \<Rightarrow> exn + 'v parsed" where
  "parse_json_list loads response =
     (case loads (clean_response response) of
        Inr v \<Rightarrow> Inr (Decoded v)
      | Inl e \<Rightarrow>
          if e = JSONDecodeError then Inr (Lines (fallback_lines response)) else Inl e)"

definition summary_prompt :: string where
  \<open>summary_prompt =
     ''You are a professional meeting notes assistant. '' @
     ''Generate a clear, concise summary of the meeting transcript. '' @
     ''Focus on decisions made, topics discussed, and overall outcomes. '' @
     ''Write in a professional tone using past tense.''\<close>

definition key_points_prompt :: string where
  \<open>key_points_prompt =
     ''OUTPUT FORMAT: JSON array only. Example: ["Point 1", "Point 2"]\<newline>'' @
     ''RULES: No code. No explanation. No markdown. No imports. No variables.\<newline>'' @
     ''TASK: Extract the most important key points from the meeting transcript below.''\<close>

definition action_items_prompt :: string where
  \<open>action_items_prompt =
     ''OUTPUT FORMAT: JSON array only. Example: ["Action 1", "Action 2"]\<newline>'' @
     ''RULES: No code. No explanation. No markdown. No imports. No variables.\<newline>'' @
     ''TASK: Extract all action items and follow-ups from the meeting transcript below.''\<close>

definition title_prompt :: string where
  \<open>title_prompt =
     ''OUTPUT FORMAT: Plain text title only, max 10 words.\<newline>'' @
     ''RULES: No code. No explanation. No markdown. No quotes.\<newline>'' @
     ''TASK: Generate a short descriptive title for the meeting transcript below.''\<close>

definition question_prompt :: string where
  \<open>question_prompt =
     ''You are a professional meeting notes assistant. '' @
     ''Answer the user's question based ONLY on the meeting transcript provided. '' @
     ''If the answer is not in the transcript, say so clearly.''\<close>

definition transcript_message :: "string \<Rightarrow> string" where
  "transcript_message t = ''Meeting transcript:\<newline>\<newline>'' @ t"

text \<open>\<open>[self._chat(system_prompt, ...) for c in chunks]\<close>: the requests go out in order
  and the first that raises ends the comprehension.\<close>

fun chat_each ::
  "'s endpoint \<Rightarrow> string \<Rightarrow> string list \<Rightarrow> 's client \<Rightarrow> (exn + string list) \<times> 's client" where
  "chat_each llm system_prompt [] c = (Inr [], c)"
| "chat_each llm system_prompt (x # xs) c =
     (case chat llm system_prompt (transcript_message x) c of
        (Inl e, c') \<Rightarrow> (Inl e, c')
      | (Inr p, c') \<Rightarrow>
          (case chat_each llm system_prompt xs c' of
             (Inl e, c'') \<Rightarrow> (Inl e, c'')
           | (Inr ps, c'') \<Rightarrow> (Inr (p # ps), c'')))"

definition generate_summary :: "'s endpoint \<Rightarrow> string \<Rightarrow> 's client \<Rightarrow> (exn + string) \<times> 's client" where
  "generate_summary llm transcript c =
     (case chunk_transcript transcript 800 of
        Inl e \<Rightarrow> (Inl e, c)
      | Inr chunks \<Rightarrow>
          if length chunks = 1 then chat llm summary_prompt (transcript_message transcript) c
          else
            (case chat_each llm summary_prompt chunks c of
               (Inl e, c') \<Rightarrow> (Inl e, c')
             | (Inr partial, c') \<Rightarrow>
                 (let combined = join ''\<newline>\<newline>'' partial
                  in chat llm summary_prompt (transcript_message combined) c')))"

definition truncated :: "string \<Rightarrow> string" where
  "truncated transcript = join '' '' (take 800 (split transcript))"

definition extract_key_points ::
  "'s endpoint \<Rightarrow> (string \<Rightarrow> exn + 'v) \<Rightarrow> string \<Rightarrow> 's client \<Rightarrow> (exn + 'v parsed) \<times> 's client" where
  "extract_key_points llm loads transcript c =
     (let transcript = truncated transcript
      in case chat llm key_points_prompt (transcript_message transcript) c of
           (Inl e, c') \<Rightarrow> (Inl e, c')
         | (Inr response, c') \<Rightarrow> (parse_json_list loads response, c'))"

definition extract_action_items ::
  "'s endpoint \<Rightarrow> (string \<Rightarrow> exn + 'v) \<Rightarrow> string \<Rightarrow> 's client \<Rightarrow> (exn + 'v parsed) \<times> 's client" where
  "extract_action_items llm loads transcript c =
     (let transcript = truncated transcript
      in case chat llm action_items_prompt (transcript_message transcript) c of
           (Inl e, c') \<Rightarrow> (Inl e, c')
         | (Inr response, c') \<Rightarrow> (parse_json_list loads response, c'))"

definition generate_title :: "'s endpoint \<Rightarrow> string \<Rightarrow> 's client \<Rightarrow> (exn + string) \<times> 's client" where
  "generate_title llm transcript c =
     (let transcript = truncated transcript
      in chat llm title_prompt (transcript_message transcript) c)"

definition answer_question ::
  "'s endpoint \<Rightarrow> string \<Rightarrow> string \<Rightarrow> 's client \<Rightarrow> (exn + string) \<times> 's client" where
  "answer_question llm transcript question c =
     (let transcript = truncated transcript;
          user_message = transcript_message transcript @ ''\<newline>\<newline>'' @ ''Question: '' @ question
      in chat llm question_prompt user_message c)"

text \<open>\<open>process_meeting\<close>: the four entries of the dictionary are evaluated in the order
  written; the first request that raises ends the call.\<close>

record 'v ai_result =
  title_of :: string
  summary_of :: string
  key_points_of :: "'v parsed"
  action_items_of :: "'v parsed"

definition process_meeting ::
  "'s endpoint \<Rightarrow> (string \<Rightarrow> exn + 'v) \<Rightarrow> string \<Rightarrow> 's client \<Rightarrow> (exn + 'v ai_result) \<times> 's client" where
  "process_meeting llm loads transcript c =
     (case generate_title llm transcript c of
        (Inl e, c1) \<Rightarrow> (Inl e, c1)
      | (Inr t, c1) \<Rightarrow>
          (case generate_summary llm transcript c1 of
             (Inl e, c2) \<Rightarrow> (Inl e, c2)
           | (Inr s, c2) \<Rightarrow>
               (case extract_key_points llm loads transcript c2 of
                  (Inl e, c3) \<Rightarrow> (Inl e, c3)
                | (Inr k, c3) \<Rightarrow>
                    (case extract_action_items llm loads transcript c3 of
                       (Inl e, c4) \<Rightarrow> (Inl e, c4)
                     | (Inr a, c4) \<Rightarrow>
                         (Inr \<lparr>title_of = t, summary_of = s, key_points_of = k,
                               action_items_of = a\<rparr>, c4)))))"


section \<open>The record store (\<open>database.py\<close>)\<close>

text \<open>The class \<open>Meeting\<close>. The field \<open>id\<close> is \<open>None\<close> until the store assigns it.\<close>

record meeting =
  id' :: "int option"
  title :: string
  date :: string
  transcript :: string
  summary :: string
  key_points :: "string list"
  action_items :: "string list"
  audio_path :: string

text \<open>
  A row of the table \<open>meetings\<close>: the two list-valued attributes are held as text. The
  database is the table, in rowid order, together with the counter that
  \<open>AUTOINCREMENT\<close> keeps in \<open>sqlite_sequence\<close>: the largest rowid the table has ever
  held. Identifiers are Python integers; SQLite holds those of the signed 64-bit range.
\<close>

record row =
  id_col :: int
  title_col :: string
  date_col :: string
  transcript_col :: string
  summary_col :: string
  key_points_col :: string
  action_items_col :: string
  audio_path_col :: string

record database =
  rows :: "row list"
  seq :: int

text \<open>\<open>_init_db\<close> on a new file: \<open>CREATE TABLE IF NOT EXISTS\<close> gives the empty table.\<close>

definition init_db :: database where
  "init_db = \<lparr>rows = [], seq = 0\<rparr>"

definition in_int64 :: "int \<Rightarrow> bool" where
  "in_int64 i = (- (2 ^ 63) \<le> i \<and> i < 2 ^ 63)"

text \<open>The rowid \<open>INSERT\<close> gives to a new row of an \<open>AUTOINCREMENT\<close> table: one more
  than the largest rowid in the table and than the counter. When that is past the
  largest rowid the engine refuses the insert (\<open>SQLITE_FULL\<close>).\<close>

definition next_rowid :: "database \<Rightarrow> int" where
  "next_rowid db =
     max (seq db + 1)
         (if rows db = [] then 1 else Max (set (map id_col (rows db))) + 1)"

definition to_row :: "int \<Rightarrow> meeting \<Rightarrow> row" where
  "to_row i m =
     \<lparr>id_col = i, title_col = title m, date_col = date m, transcript_col = transcript m,
      summary_col = summary m, key_points_col = json_dumps (key_points m),
      action_items_col = json_dumps (action_items m), audio_path_col = audio_path m\<rparr>"

text \<open>
  \<open>save_meeting\<close> returns the identifier, the caller's record as the call leaves it
  (the insert branch assigns its \<open>id\<close>) and the database after the commit. When a
  statement raises, nothing is committed and the database is as before.
\<close>

definition save_meeting :: "database \<Rightarrow> meeting \<Rightarrow> store_error + int \<times> meeting \<times> database" where
  "save_meeting db m =
     (case id' m of
        None \<Rightarrow>
          (let lastrowid = next_rowid db
           in if \<not> in_int64 lastrowid then Inl OperationalError
              else
                (let db' = db\<lparr>rows := rows db @ [to_row lastrowid m], seq := lastrowid\<rparr>;
                     new_id = (if lastrowid \<noteq> 0 then lastrowid else 0)
                 in Inr (new_id, m\<lparr>id' := Some new_id\<rparr>, db')))
      | Some i \<Rightarrow>
          if \<not> in_int64 i then Inl OverflowError
          else
            (let db' = db\<lparr>rows := map (\<lambda>r. if id_col r = i then to_row i m else r) (rows db)\<rparr>
             in Inr (i, m, db')))"

definition row_to_meeting :: "row \<Rightarrow> store_error + meeting" where
  "row_to_meeting r =
     (case json_loads (key_points_col r) of
        Inl e \<Rightarrow> Inl e
      | Inr kp \<Rightarrow>
          (case json_loads (action_items_col r) of
             Inl e \<Rightarrow> Inl e
           | Inr ai \<Rightarrow>
               Inr \<lparr>id' = Some (id_col r), title = title_col r, date = date_col r,
                    transcript = transcript_col r, summary = summary_col r,
                    key_points = kp, action_items = ai, audio_path = audio_path_col r\<rparr>))"

text \<open>\<open>[self._row_to_meeting(row) for row in rows]\<close>: the first row that fails to
  convert raises.\<close>

fun rows_to_meetings :: "row list \<Rightarrow> store_error + meeting list" where
  "rows_to_meetings [] = Inr []"
| "rows_to_meetings (r # rs) =
     (case row_to_meeting r of
        Inl e \<Rightarrow> Inl e
      | Inr m \<Rightarrow> (case rows_to_meetings rs of Inl e \<Rightarrow> Inl e | Inr ms \<Rightarrow> Inr (m # ms)))"

definition get_meeting :: "database \<Rightarrow> int \<Rightarrow> store_error + meeting option" where
  "get_meeting db meeting_id =
     (if \<not> in_int64 meeting_id then Inl OverflowError
      else
        (case find (\<lambda>r. id_col r = meeting_id) (rows db) of
           None \<Rightarrow> Inr None
         | Some r \<Rightarrow> (case row_to_meeting r of Inl e \<Rightarrow> Inl e | Inr m \<Rightarrow> Inr (Some m))))"

text \<open>
  \<open>ORDER BY date DESC\<close>: the rows by decreasing \<open>date\<close>, compared as text. SQL leaves
  the order of rows of equal date to the engine; here they keep the table order.
\<close>

fun insort_desc :: "row \<Rightarrow> row list \<Rightarrow> row list" where
  "insort_desc r [] = [r]"
| "insort_desc r (x # xs) =
     (if date_col x \<le> date_col r then r # x # xs else x # insort_desc r xs)"

definition order_by_date_desc :: "row list \<Rightarrow> row list" where
  "order_by_date_desc rs = foldr insort_desc rs []"

definition get_all_meetings :: "database \<Rightarrow> store_error + meeting list" where
  "get_all_meetings db = rows_to_meetings (order_by_date_desc (rows db))"

text \<open>
  \<open>delete_meeting\<close>. The claims about it speak of the audio files on disk, so the
  embedding carries the set of existing paths next to the database: the body of the
  function is a \<open>SELECT\<close>, a \<open>DELETE\<close> and a commit, and returns the path to its caller.
\<close>

definition delete_meeting ::
  "database \<Rightarrow> string set \<Rightarrow> int \<Rightarrow> store_error + string option \<times> database \<times> string set" where
  "delete_meeting db files meeting_id =
     (if \<not> in_int64 meeting_id then Inl OverflowError
      else
        (case find (\<lambda>r. id_col r = meeting_id) (rows db) of
           None \<Rightarrow> Inr (None, db, files)
         | Some r \<Rightarrow>
             Inr (Some (audio_path_col r),
                  db\<lparr>rows := filter (\<lambda>r. id_col r \<noteq> meeting_id) (rows db)\<rparr>,
                  files)))"

text \<open>
  The operator \<open>LIKE\<close> of SQLite with its defaults. Both operands are read as C
  strings, up to their first U+0000. In the pattern \<open>%\<close> stands for any run of
  characters and \<open>_\<close> for any one character; every other character of the pattern
  stands for itself, the ASCII letters without regard to case. There is no escape
  character. A pattern of more than 50000 bytes (in UTF-8, its whole length) makes the
  operator raise; the operator is evaluated once per row, first on the title.
\<close>

definition sql_lower :: "char \<Rightarrow> char" where
  "sql_lower c =
     (if 65 \<le> (of_char c :: nat) \<and> (of_char c :: nat) \<le> 90
      then char_of ((of_char c :: nat) + 32) else c)"

fun like :: "string \<Rightarrow> string \<Rightarrow> bool" where
  "like [] s = (s = [])"
| "like (p # ps) [] = (p = CHR ''%'' \<and> like ps [])"
| "like (p # ps) (c # cs) =
     (if p = CHR ''%'' then like ps (c # cs) \<or> like (p # ps) cs
      else (p = CHR ''_'' \<or> sql_lower p = sql_lower c) \<and> like ps cs)"

definition c_str :: "string \<Rightarrow> string" where
  "c_str s = takeWhile (\<lambda>c. c \<noteq> CHR 0x00) s"

definition utf8_length :: "string \<Rightarrow> nat" where
  "utf8_length s = sum_list (map (\<lambda>c. if (of_char c :: nat) < 128 then 1 else 2) s)"

definition sql_like :: "string \<Rightarrow> string \<Rightarrow> bool" where
  "sql_like pat s = like (c_str pat) (c_str s)"

definition search_meetings :: "database \<Rightarrow> string \<Rightarrow> store_error + meeting list" where
  "search_meetings db query =
     (let pat = ''%'' @ query @ ''%''
      in if rows db \<noteq> [] \<and> 50000 < utf8_length pat then Inl OperationalError
         else
           rows_to_meetings
             (order_by_date_desc
                (filter (\<lambda>r. sql_like pat (title_col r) \<or> sql_like pat (transcript_col r)
                               \<or> sql_like pat (summary_col r))
                        (rows db))))"


section \<open>Transcription (\<open>transcriber.py\<close>)\<close>

text \<open>
  The speech-to-text engine is a parameter: from a path it raises or returns a
  dictionary, whose entries may be missing.
\<close>

record raw_segment =
  raw_start :: "real option"
  raw_end :: "real option"
  raw_seg_text :: "string option"

record raw_result =
  raw_text :: "string option"
  raw_segments :: "raw_segment list option"
  raw_language :: "string option"

record segment =
  seg_start :: "real option"
  seg_end :: "real option"
  seg_text :: string

record transcription =
  text_of :: string
  segments :: "segment list"
  language :: string

definition get_or :: "'a option \<Rightarrow> 'a \<Rightarrow> 'a" where
  "get_or entry fallback = (case entry of None \<Rightarrow> fallback | Some v \<Rightarrow> v)"

definition transcribe_file :: "(string \<Rightarrow> exn + raw_result) \<Rightarrow> string \<Rightarrow> exn + transcription" where
  "transcribe_file model path =
     (case model path of
        Inl e \<Rightarrow> Inl e
      | Inr result \<Rightarrow>
          Inr \<lparr>text_of = strip (get_or (raw_text result) []),
               segments =
                 map (\<lambda>seg. \<lparr>seg_start = raw_start seg, seg_end = raw_end seg,
                              seg_text = strip (get_or (raw_seg_text seg) [])\<rparr>)
                     (get_or (raw_segments result) []),
               language = get_or (raw_language result) ''en''\<rparr>)"


section \<open>The orchestrator (\<open>app.py\<close>)\<close>

text \<open>
  The state the application works on: the record store, the chat client, the meeting
  selected in the session, and the paths that exist on disk. The collaborators are
  parameters: the duration probe \<open>sf.info\<close> (\<open>None\<close> when it raises), the
  speech-to-text engine, the chat endpoint, \<open>json.loads\<close>, the validation of a decoded
  value against \<open>list[str]\<close> by the class \<open>Meeting\<close>, and the clock.
\<close>

record 's world =
  store :: database
  llm_client :: "'s client"
  current_meeting :: "meeting option"
  files :: "string set"

record ('s, 'v) services =
  sf_info :: "string \<Rightarrow> real option"
  whisper_model :: "string \<Rightarrow> exn + raw_result"
  chat_endpoint :: "'s endpoint"
  json_decoder :: "string \<Rightarrow> exn + 'v"
  as_str_list :: "'v \<Rightarrow> string list option"
  now :: string

datatype outcome =
  AudioTooShort | NoSpeechDetected | MeetingProcessed | Raised exn | StoreRaised store_error

definition validate_list :: "('v \<Rightarrow> string list option) \<Rightarrow> 'v parsed \<Rightarrow> exn + string list" where
  "validate_list valid p =
     (case p of
        Lines xs \<Rightarrow> Inr xs
      | Decoded v \<Rightarrow> (case valid v of None \<Rightarrow> Inl ValidationError | Some xs \<Rightarrow> Inr xs))"

definition process_audio :: "('s, 'v) services \<Rightarrow> string \<Rightarrow> 's world \<Rightarrow> outcome \<times> 's world" where
  "process_audio sv path w =
     (if (case sf_info sv path of None \<Rightarrow> False | Some duration \<Rightarrow> duration < 1)
      then (AudioTooShort, w)
      else
        (case transcribe_file (whisper_model sv) path of
           Inl e \<Rightarrow> (Raised e, w)
         | Inr result \<Rightarrow>
             (let spoken = text_of result
              in if strip spoken = [] then (NoSpeechDetected, w)
                 else
                   (case process_meeting (chat_endpoint sv) (json_decoder sv) spoken (llm_client w) of
                      (Inl e, c') \<Rightarrow> (Raised e, w\<lparr>llm_client := c'\<rparr>)
                    | (Inr ai, c') \<Rightarrow>
                        (case validate_list (as_str_list sv) (key_points_of ai) of
                           Inl e \<Rightarrow> (Raised e, w\<lparr>llm_client := c'\<rparr>)
                         | Inr kp \<Rightarrow>
                             (case validate_list (as_str_list sv) (action_items_of ai) of
                                Inl e \<Rightarrow> (Raised e, w\<lparr>llm_client := c'\<rparr>)
                              | Inr items \<Rightarrow>
                                  (let m = \<lparr>id' = None, title = title_of ai, date = now sv,
                                            transcript = spoken, summary = summary_of ai,
                                            key_points = kp, action_items = items,
                                            audio_path = path\<rparr>
                                   in case save_meeting (store w) m of
                                        Inl e \<Rightarrow> (StoreRaised e, w\<lparr>llm_client := c'\<rparr>)
                                      | Inr (i, m', db') \<Rightarrow>
                                          (MeetingProcessed,
                                           w\<lparr>llm_client := c', store := db',
                                             current_meeting := Some m'\<rparr>))))))))"

text \<open>
  The handler of the delete button of the sidebar: it is the handler, not the store,
  that removes the audio file. An error of the store ends the handler.
\<close>

definition delete_clicked :: "'s world \<Rightarrow> meeting \<Rightarrow> store_error + 's world" where
  "delete_clicked w m =
     (case (case id' m of
              None \<Rightarrow> Inr w
            | Some i \<Rightarrow>
                (case delete_meeting (store w) (files w) i of
                   Inl e \<Rightarrow> Inl e
                 | Inr (p, db', files') \<Rightarrow>
                     (let w' = w\<lparr>store := db', files := files'\<rparr>
                      in case p of
                           None \<Rightarrow> Inr w'
                         | Some f \<Rightarrow>
                             if f \<noteq> [] \<and> f \<in> files w'
                             then Inr (w'\<lparr>files := files w' - {f}\<rparr>) else Inr w'))) of
        Inl e \<Rightarrow> Inl e
      | Inr w1 \<Rightarrow>
          (case current_meeting w1 of
             None \<Rightarrow> Inr w1
           | Some cm \<Rightarrow> if id' cm = id' m then Inr (w1\<lparr>current_meeting := None\<rparr>) else Inr w1))"


section \<open>Notions used to state the properties\<close>

text \<open>A query without the two wildcard characters of \<open>LIKE\<close>, and the occurrence of a
  query in a field as a contiguous substring when ASCII letters are compared without
  regard to case; a record matches when one of its three searched fields, read up to
  its first U+0000, contains the query so.\<close>

definition no_wildcard :: "string \<Rightarrow> bool" where
  "no_wildcard q = (CHR ''%'' \<notin> set q \<and> CHR ''_'' \<notin> set q)"

definition contains_nocase :: "string \<Rightarrow> string \<Rightarrow> bool" where
  "contains_nocase q s = sublist (map sql_lower q) (map sql_lower s)"

definition matches :: "string \<Rightarrow> meeting \<Rightarrow> bool" where
  "matches q m =
     (contains_nocase q (c_str (title m)) \<or> contains_nocase q (c_str (transcript m))
      \<or> contains_nocase q (c_str (summary m)))"

definition newest_first :: "meeting list \<Rightarrow> bool" where
  "newest_first ms = sorted_wrt (\<lambda>a b. date b \<le> date a) ms"

text \<open>The records of the test suite of the repository, with a date.\<close>

definition sample_meeting :: meeting where
  "sample_meeting =
     \<lparr>id' = None, title = ''Sprint Planning'', date = ''2025-03-01 09:30'',
      transcript = ''We discussed the upcoming sprint goals and assigned tasks.'',
      summary = ''The team planned the next sprint and assigned responsibilities.'',
      key_points = [''New feature prioritized'', ''Bug fixes scheduled''],
      action_items = [''Alice to design UI mockups'', ''Bob to fix login bug''],
      audio_path = ''''\<rparr>"

definition python_workshop :: meeting where
  "python_workshop =
     \<lparr>id' = None, title = ''Python Workshop'', date = ''2025-03-02 14:00'',
      transcript = ''We learned about decorators'', summary = '''',
      key_points = [], action_items = [], audio_path = ''uploads/workshop.wav''\<rparr>"

definition sample_db :: database where
  "sample_db =
     \<lparr>rows = [to_row 1 sample_meeting, to_row 2 python_workshop], seq = 2\<rparr>"

definition updated_sample :: meeting where
  "updated_sample = sample_meeting\<lparr>id' := Some 1, title := ''Updated Sprint Planning''\<rparr>"


text \<open>
  Collaborators for the examples: an endpoint without state that answers every request
  with the user message it was sent, a client that has issued no request, and a
  decoder that accepts the JSON text of an array of strings.
\<close>

definition echo_llm :: "unit endpoint" where
  "echo_llm s system_prompt user_message = (Inr (Some user_message), s)"

definition fresh_client :: "unit client" where
  "fresh_client = \<lparr>service = (), requests = []\<rparr>"

definition strict_loads :: "string \<Rightarrow> exn + string list" where
  "strict_loads s = (case json_loads s of Inl e \<Rightarrow> Inl JSONDecodeError | Inr xs \<Rightarrow> Inr xs)"

text \<open>The same decoder under the recursion limit of the interpreter (1000 by default):
  a text that opens with 2000 brackets or more is nested deeper than the limit.\<close>

definition nested_loads :: "string \<Rightarrow> exn + string list" where
  "nested_loads s =
     (if 2000 \<le> length (takeWhile (\<lambda>c. c = CHR ''['') s) then Inl RecursionError
      else strict_loads s)"

definition deep_answer :: string where
  "deep_answer = replicate 2000 (CHR ''['')"

definition words_then :: "nat \<Rightarrow> string \<Rightarrow> string" where
  "words_then n u = concat (replicate n ''w '') @ u"

definition canned_llm :: "string \<Rightarrow> unit endpoint" where
  "canned_llm answer s system_prompt user_message = (Inr (Some answer), s)"

definition fenced_answer :: string where
  \<open>fenced_answer = ''```json\<newline>["Ship Friday", "QA to Bob"]\<newline>```''\<close>

definition prose_answer :: string where
  \<open>prose_answer = ''Key points:\<newline>- ship on Friday\<newline>2. "QA goes to Bob\<newline>\<newline>import json''\<close>

text \<open>An endpoint that never raises, and a word in the sense of \<open>split\<close>.\<close>

definition never_raises :: "'s endpoint \<Rightarrow> bool" where
  "never_raises llm = (\<forall>s p msg. \<exists>a s'. llm s p msg = (Inr a, s'))"

definition is_word :: "string \<Rightarrow> bool" where
  "is_word w = (w \<noteq> [] \<and> (\<forall>c \<in> set w. \<not> isspace c))"

text \<open>
  Collaborators for a run of the orchestrator: a probe that reports two seconds, an
  engine that hears what it is given, the endpoint that answers every request with the
  fenced array, the decoder of string arrays, and a fixed clock.
\<close>

definition hearing :: "string \<Rightarrow> (unit, string list) services" where
  "hearing heard =
     \<lparr>sf_info = (\<lambda>path. Some 2),
      whisper_model =
        (\<lambda>path. Inr \<lparr>raw_text = Some heard, raw_segments = None, raw_language = None\<rparr>),
      chat_endpoint = canned_llm fenced_answer,
      json_decoder = strict_loads,
      as_str_list = Some,
      now = ''2025-03-03 09:00''\<rparr>"

definition empty_world :: "unit world" where
  "empty_world =
     \<lparr>store = init_db, llm_client = fresh_client, current_meeting = None, files = {}\<rparr>"

definition spoken_words :: string where
  "spoken_words = ''We agreed to ship the feature Friday and assign QA to Bob''"


section \<open>Properties of the JSON text\<close>

lemma hexval_hexdigit: "d < 16 \<Longrightarrow> hexval (hexdigit d) = Some d"
proof -
  assume "d < 16"
  then have "d \<in> {0,1,2,3,4,5,6,7,8,9,10,11,12,13,14,15}" by (simp add: less_Suc_eq numeral_eq_Suc)
  then show ?thesis
    by (auto simp: hexval_def hexdigit_def)
qed

lemma hex4_byte:
  "n < 256 \<Longrightarrow> hex4 (CHR ''0'') (CHR ''0'') (hexdigit (n div 16)) (hexdigit (n mod 16)) = Some n"
proof -
  assume n: "n < 256"
  have z: "hexval (CHR ''0'') = Some 0" by (simp add: hexval_def)
  from n have "n div 16 < 16" by simp
  then have a: "hexval (hexdigit (n div 16)) = Some (n div 16)" by (rule hexval_hexdigit)
  have b: "hexval (hexdigit (n mod 16)) = Some (n mod 16)" by (rule hexval_hexdigit) simp
  show ?thesis by (simp add: hex4_def z a b)
qed

lemma scanstring_escape_char:
  "scanstring (escape_char c @ rest) = cons_result c (scanstring rest)"
proof -
  let ?n = "of_char c :: nat"
  have h: "hex4 (CHR ''0'') (CHR ''0'') (hexdigit (?n div 16)) (hexdigit (?n mod 16)) = Some ?n"
    by (rule hex4_byte) simp
  show ?thesis
    by (simp add: escape_char_def simple_escape_def h DQUOTE_def BACKSLASH_def NEWLINE_def)
qed

lemma scanstring_encode:
  "scanstring (concat (map escape_char s) @ DQUOTE # rest) = Inr (s, rest)"
  by (induction s) (simp_all add: scanstring_escape_char cons_result_def)


lemma skip_ws_simps:
  "skip_ws (CHR '']'' # r) = CHR '']'' # r"
  "skip_ws (CHR '','' # r) = CHR '','' # r"
  "skip_ws (CHR ''['' # r) = CHR ''['' # r"
  "skip_ws (DQUOTE # r) = DQUOTE # r"
  "skip_ws (CHR '' '' # r) = skip_ws r"
  "skip_ws [] = []"
  by (simp_all add: skip_ws_def json_ws_def DQUOTE_def NEWLINE_def)

lemma parse_items_encode:
  "parse_items (encode_str x @ CHR '']'' # rest) = Inr ([x], rest)"
  by (subst parse_items.simps)
     (simp add: encode_str_def scanstring_encode skip_ws_simps)

lemma parse_items_join:
  "parse_items (join '', '' (map encode_str (x # xs)) @ CHR '']'' # rest) = Inr (x # xs, rest)"
proof (induction xs arbitrary: x)
  case Nil
  show ?case by (simp add: parse_items_encode)
next
  case (Cons y ys)
  define tl where "tl = join '', '' (map encode_str (y # ys)) @ CHR '']'' # rest"
  have ih: "parse_items tl = Inr (y # ys, rest)"
    unfolding tl_def by (rule Cons.IH)
  obtain t where t: "tl = DQUOTE # t"
    by (cases ys) (simp_all add: tl_def encode_str_def)
  have sk: "skip_ws tl = tl"
    by (simp add: skip_ws_simps t)
  have scan: "scanstring (concat (map escape_char x) @ DQUOTE # CHR '','' # CHR '' '' # tl)
              = Inr (x, CHR '','' # CHR '' '' # tl)"
    by (rule scanstring_encode)
  have "parse_items (encode_str x @ CHR '','' # CHR '' '' # tl) = Inr (x # y # ys, rest)"
    by (subst parse_items.simps) (simp add: encode_str_def [of x] scan skip_ws_simps sk ih)
  then show ?case by (simp add: tl_def)
qed

lemma json_loads_dumps: "json_loads (json_dumps xs) = Inr xs"
proof (cases xs)
  case Nil
  then show ?thesis by (simp add: json_loads_def json_dumps_def skip_ws_simps)
next
  case (Cons y ys)
  define body where "body = join '', '' (map encode_str (y # ys)) @ '']''"
  obtain t where t: "body = DQUOTE # t"
    by (cases ys) (simp_all add: body_def encode_str_def)
  have p: "parse_items body = Inr (y # ys, [])"
    unfolding body_def using parse_items_join [of y ys "[]"] by simp
  have "json_loads (CHR ''['' # body) = Inr (y # ys)"
  proof -
    have "DQUOTE \<noteq> CHR '']''" by (simp add: DQUOTE_def)
    with p show ?thesis
      by (simp add: json_loads_def skip_ws_simps t)
  qed
  then show ?thesis by (simp add: json_dumps_def body_def Cons)
qed


section \<open>Properties of the record store\<close>

lemma row_to_meeting_to_row: "row_to_meeting (to_row i m) = Inr (m\<lparr>id' := Some i\<rparr>)"
  by (simp add: row_to_meeting_def to_row_def json_loads_dumps)

lemma rowid_below_next: "r \<in> set (rows db) \<Longrightarrow> id_col r < next_rowid db"
proof -
  assume r: "r \<in> set (rows db)"
  then have ne: "rows db \<noteq> []" by auto
  from r have "id_col r \<le> Max (set (map id_col (rows db)))"
    by (intro Max_ge) auto
  with ne show ?thesis by (simp add: next_rowid_def)
qed

lemma find_none_iff_ids: "find (\<lambda>r. id_col r = i) rs = None \<longleftrightarrow> i \<notin> id_col ` set rs"
  by (auto simp: find_None_iff)

lemma find_append_new:
  "i \<notin> id_col ` set rs \<Longrightarrow> id_col r = i \<Longrightarrow> find (\<lambda>r. id_col r = i) (rs @ [r]) = Some r"
  by (induction rs) auto

lemma find_append_old:
  "id_col r \<noteq> j \<Longrightarrow> find (\<lambda>r. id_col r = j) (rs @ [r]) = find (\<lambda>r. id_col r = j) rs"
  by (induction rs) auto

lemma find_updated:
  "i \<in> id_col ` set rs \<Longrightarrow> id_col r' = i \<Longrightarrow>
   find (\<lambda>r. id_col r = i) (map (\<lambda>r. if id_col r = i then r' else r) rs) = Some r'"
  by (induction rs) auto

lemma find_update_other:
  "j \<noteq> i \<Longrightarrow> id_col r' = i \<Longrightarrow>
   find (\<lambda>r. id_col r = j) (map (\<lambda>r. if id_col r = i then r' else r) rs)
     = find (\<lambda>r. id_col r = j) rs"
  by (induction rs) auto

lemma update_absent:
  "i \<notin> id_col ` set rs \<Longrightarrow> map (\<lambda>r. if id_col r = i then r' else r) rs = rs"
  by (induction rs) auto

lemma find_filter_out: "find (\<lambda>r. id_col r = i) (filter (\<lambda>r. id_col r \<noteq> i) rs) = None"
  by (simp add: find_None_iff)

lemma find_filter_other:
  "j \<noteq> i \<Longrightarrow> find (\<lambda>r. id_col r = j) (filter (\<lambda>r. id_col r \<noteq> i) rs) = find (\<lambda>r. id_col r = j) rs"
  by (induction rs) auto

lemma mset_insort_desc: "mset (insort_desc r xs) = add_mset r (mset xs)"
  by (induction xs) simp_all

lemma set_insort_desc: "set (insort_desc r xs) = insert r (set xs)"
  by (induction xs) auto

lemma sorted_insort_desc:
  "sorted_wrt (\<lambda>a b. date_col b \<le> date_col a) xs \<Longrightarrow>
   sorted_wrt (\<lambda>a b. date_col b \<le> date_col a) (insort_desc r xs)"
  by (induction xs) (auto simp: set_insort_desc)

lemma mset_order_by: "mset (order_by_date_desc rs) = mset rs"
  by (induction rs) (simp_all add: order_by_date_desc_def mset_insort_desc)

lemma sorted_order_by: "sorted_wrt (\<lambda>a b. date_col b \<le> date_col a) (order_by_date_desc rs)"
  by (induction rs) (simp_all add: order_by_date_desc_def sorted_insort_desc)

lemma filter_insort_desc:
  "sorted_wrt (\<lambda>a b. date_col b \<le> date_col a) xs \<Longrightarrow>
   filter P (insort_desc r xs) = (if P r then insort_desc r (filter P xs) else filter P xs)"
proof (induction xs)
  case Nil
  show ?case by simp
next
  case (Cons x xs)
  show ?case
  proof (cases "date_col x \<le> date_col r")
    case True
    have "filter P xs = [] \<or> date_col (hd (filter P xs)) \<le> date_col r"
    proof (cases "filter P xs")
      case Nil then show ?thesis by simp
    next
      case (Cons y ys)
      have "y \<in> set (filter P xs)" by (simp add: Cons)
      then have "y \<in> set xs" by simp
      with Cons.prems True have "date_col y \<le> date_col r" by auto
      with Cons show ?thesis by simp
    qed
    then have "insort_desc r (filter P xs) = r # filter P xs"
      by (cases "filter P xs") auto
    with True show ?thesis by simp
  next
    case False
    with Cons show ?thesis by simp
  qed
qed

lemma filter_order_by:
  "filter P (order_by_date_desc rs) = order_by_date_desc (filter P rs)"
  by (induction rs)
     (simp_all add: order_by_date_desc_def filter_insort_desc
        sorted_order_by [unfolded order_by_date_desc_def])

lemma row_to_meeting_fields:
  "row_to_meeting r = Inr m \<Longrightarrow>
   id' m = Some (id_col r) \<and> title m = title_col r \<and> date m = date_col r \<and>
   transcript m = transcript_col r \<and> summary m = summary_col r \<and>
   audio_path m = audio_path_col r"
  by (auto simp: row_to_meeting_def split: sum.splits)

lemma rows_to_meetings_all2:
  "rows_to_meetings rs = Inr ms \<Longrightarrow> list_all2 (\<lambda>r m. row_to_meeting r = Inr m) rs ms"
  by (induction rs arbitrary: ms) (auto split: sum.splits)

lemma rows_to_meetings_filter:
  "rows_to_meetings rs = Inr ms \<Longrightarrow>
   (\<And>r m. row_to_meeting r = Inr m \<Longrightarrow> P r = Q m) \<Longrightarrow>
   rows_to_meetings (filter P rs) = Inr (filter Q ms)"
proof (induction rs arbitrary: ms)
  case Nil
  then show ?case by simp
next
  case (Cons r rs)
  from Cons.prems(1) obtain m ms' where
    m: "row_to_meeting r = Inr m" "rows_to_meetings rs = Inr ms'" "ms = m # ms'"
    by (auto split: sum.splits)
  have "rows_to_meetings (filter P rs) = Inr (filter Q ms')"
    by (rule Cons.IH [OF m(2) Cons.prems(2)])
  moreover have "P r = Q m" by (rule Cons.prems(2) [OF m(1)])
  ultimately show ?case using m by simp
qed

lemma rows_to_meetings_sorted:
  assumes "rows_to_meetings rs = Inr ms"
    and "sorted_wrt (\<lambda>a b. date_col b \<le> date_col a) rs"
  shows "sorted_wrt (\<lambda>a b. date b \<le> date a) ms"
proof -
  have l: "list_all2 (\<lambda>r m. row_to_meeting r = Inr m) rs ms"
    by (rule rows_to_meetings_all2 [OF assms(1)])
  then have len: "length rs = length ms" by (rule list_all2_lengthD)
  have d: "date (ms ! k) = date_col (rs ! k)" if "k < length ms" for k
    using l that len row_to_meeting_fields [of "rs ! k" "ms ! k"]
    by (simp add: list_all2_conv_all_nth)
  show ?thesis
    using assms(2) len d by (simp add: sorted_wrt_iff_nth_less)
qed

lemma rows_to_meetings_ids:
  "rows_to_meetings rs = Inr ms \<Longrightarrow> map id' ms = map (\<lambda>r. Some (id_col r)) rs"
  by (induction rs arbitrary: ms) (auto split: sum.splits dest: row_to_meeting_fields)

lemma like_percent: "like ''%'' s"
  by (induction s) simp_all

lemma like_percent_percent: "like ''%%'' s"
  by (induction s) (simp_all add: like_percent)

lemma like_prefix:
  "no_wildcard q \<Longrightarrow> like (q @ ''%'') s \<longleftrightarrow> prefix (map sql_lower q) (map sql_lower s)"
proof (induction q arbitrary: s)
  case Nil
  show ?case by (simp add: like_percent)
next
  case (Cons p ps)
  then have p: "p \<noteq> CHR ''%''" "p \<noteq> CHR ''_''" and ps: "no_wildcard ps"
    by (auto simp: no_wildcard_def)
  show ?case
  proof (cases s)
    case Nil
    with p show ?thesis by simp
  next
    case (Cons c cs)
    with p Cons.IH [OF ps, of cs] show ?thesis by auto
  qed
qed

lemma like_contains:
  "no_wildcard q \<Longrightarrow>
   like (''%'' @ q @ ''%'') s \<longleftrightarrow> sublist (map sql_lower q) (map sql_lower s)"
proof (induction s)
  case Nil
  have "like (CHR ''%'' # q @ ''%'') [] \<longleftrightarrow> like (q @ ''%'') []" by simp
  with like_prefix [OF Nil, of "[]"] show ?case by simp
next
  case (Cons c cs)
  have "like (CHR ''%'' # q @ ''%'') (c # cs)
        \<longleftrightarrow> like (q @ ''%'') (c # cs) \<or> like (CHR ''%'' # q @ ''%'') cs"
    by simp
  with Cons.IH [OF Cons.prems] like_prefix [OF Cons.prems, of "c # cs"]
  show ?case by (simp add: sublist_Cons_right)
qed

lemma get_meeting_absent:
  "in_int64 i \<Longrightarrow> i \<notin> id_col ` set (rows db) \<Longrightarrow> get_meeting db i = Inr None"
  by (simp add: get_meeting_def find_none_iff_ids [THEN iffD2])

lemma to_row_sel:
  "id_col (to_row i m) = i" "title_col (to_row i m) = title m"
  "date_col (to_row i m) = date m" "transcript_col (to_row i m) = transcript m"
  "summary_col (to_row i m) = summary m" "audio_path_col (to_row i m) = audio_path m"
  "key_points_col (to_row i m) = json_dumps (key_points m)"
  "action_items_col (to_row i m) = json_dumps (action_items m)"
  by (simp_all add: to_row_def)

lemma sample_db_all:
  "get_all_meetings sample_db
   = Inr [python_workshop\<lparr>id' := Some 2\<rparr>, sample_meeting\<lparr>id' := Some 1\<rparr>]"
proof -
  have "\<not> date python_workshop \<le> date sample_meeting"
    by (simp add: sample_meeting_def python_workshop_def)
  then show ?thesis
    by (simp add: get_all_meetings_def sample_db_def order_by_date_desc_def
        row_to_meeting_to_row to_row_sel)
qed

lemma in_int64_small: "in_int64 1" "in_int64 2" "in_int64 3" "in_int64 999"
  by (simp_all add: in_int64_def)

lemma save_meeting_insert:
  assumes "id' m = None" and "save_meeting db m = Inr (i, m', db')"
  shows "i = next_rowid db" and "m' = m\<lparr>id' := Some i\<rparr>"
    and "db' = db\<lparr>rows := rows db @ [to_row i m], seq := i\<rparr>"
    and "in_int64 i"
  using assms by (auto simp: save_meeting_def Let_def split: if_splits)

lemma save_meeting_insert_returns:
  assumes "id' m = None" and "in_int64 (next_rowid db)"
  shows "save_meeting db m
         = Inr (next_rowid db, m\<lparr>id' := Some (next_rowid db)\<rparr>,
                db\<lparr>rows := rows db @ [to_row (next_rowid db) m], seq := next_rowid db\<rparr>)"
  using assms by (simp add: save_meeting_def Let_def)

lemma next_rowid_fresh: "next_rowid db \<notin> id_col ` set (rows db)"
  using rowid_below_next [of _ db] by fastforce

lemma save_meeting_update:
  assumes "id' m = Some k" and "save_meeting db m = Inr (i, m', db')"
  shows "i = k" and "m' = m"
    and "db' = db\<lparr>rows := map (\<lambda>r. if id_col r = k then to_row k m else r) (rows db)\<rparr>"
    and "in_int64 k"
  using assms by (auto simp: save_meeting_def split: if_splits)

lemma save_meeting_update_returns:
  assumes "id' m = Some k" and "in_int64 k"
  shows "save_meeting db m
         = Inr (k, m, db\<lparr>rows := map (\<lambda>r. if id_col r = k then to_row k m else r) (rows db)\<rparr>)"
  using assms by (simp add: save_meeting_def)

lemma saved_id_in_int64:
  "save_meeting db m = Inr (i, m', db') \<Longrightarrow> in_int64 i"
  by (cases "id' m") (auto dest: save_meeting_insert(4) save_meeting_update(1,4))

lemma first_row_after_save:
  assumes "save_meeting db m = Inr (i, m', db')"
    and "id' m = None \<or> i \<in> id_col ` set (rows db)"
  shows "find (\<lambda>r. id_col r = i) (rows db') = Some (to_row i m)"
proof (cases "id' m")
  case None
  note ins = save_meeting_insert [OF None assms(1)]
  have "i \<notin> id_col ` set (rows db)"
    unfolding ins(1) by (rule next_rowid_fresh)
  then show ?thesis
    by (simp add: ins(3) find_append_new to_row_sel)
next
  case (Some k)
  note upd = save_meeting_update [OF Some assms(1)]
  from assms(2) Some upd(1) have "k \<in> id_col ` set (rows db)" by simp
  then show ?thesis
    by (simp add: upd(1) upd(3) find_updated to_row_sel)
qed

lemma get_after_save:
  assumes "save_meeting db m = Inr (i, m', db')"
    and "id' m = None \<or> i \<in> id_col ` set (rows db)"
  shows "get_meeting db' i = Inr (Some (m\<lparr>id' := Some i\<rparr>))"
  using first_row_after_save [OF assms] saved_id_in_int64 [OF assms(1)]
  by (simp add: get_meeting_def row_to_meeting_to_row)

lemma save_sample_into_empty:
  "save_meeting init_db sample_meeting
   = Inr (1, sample_meeting\<lparr>id' := Some 1\<rparr>, \<lparr>rows = [to_row 1 sample_meeting], seq = 1\<rparr>)"
  by (simp add: save_meeting_def next_rowid_def init_db_def sample_meeting_def in_int64_def)

lemma save_updated_sample:
  "save_meeting sample_db updated_sample
   = Inr (1, updated_sample,
          \<lparr>rows = [to_row 1 updated_sample, to_row 2 python_workshop], seq = 2\<rparr>)"
  by (simp add: save_meeting_def sample_db_def updated_sample_def to_row_sel in_int64_def)

lemma c_str_no_nul: "CHR 0x00 \<notin> set s \<Longrightarrow> c_str s = s"
  by (auto simp: c_str_def takeWhile_eq_all_conv)

lemma sql_like_contains:
  assumes "no_wildcard q" and "CHR 0x00 \<notin> set q"
  shows "sql_like (''%'' @ q @ ''%'') s \<longleftrightarrow> contains_nocase q (c_str s)"
proof -
  from assms(2) have "CHR 0x00 \<notin> set (''%'' @ q @ ''%'')" by simp
  then have "c_str (''%'' @ q @ ''%'') = ''%'' @ q @ ''%''" by (rule c_str_no_nul)
  with like_contains [OF assms(1), of "c_str s"] show ?thesis
    by (simp add: sql_like_def contains_nocase_def)
qed

lemma sql_like_percent_percent: "sql_like ''%%'' s"
  using like_percent_percent [of "c_str s"] by (simp add: sql_like_def c_str_def)

lemma like_any_one: "like ''%_%'' (c # cs)"
  by (induction cs arbitrary: c) (simp_all add: like_percent)

text \<open>
  What \<open>search_meetings\<close> does on a query that holds no wildcard and no U+0000 and is
  short enough for the engine: it returns the records of \<open>get_all_meetings\<close> that match,
  in the same order.
\<close>

lemma search_meetings_plain_query:
  assumes "no_wildcard q" and "CHR 0x00 \<notin> set q" and "utf8_length q + 2 \<le> 50000"
    and "get_all_meetings db = Inr all"
  shows "search_meetings db q = Inr (filter (matches q) all)
         \<and> newest_first (filter (matches q) all)"
proof -
  let ?pat = "''%'' @ q @ ''%''"
  let ?P = "\<lambda>r. sql_like ?pat (title_col r) \<or> sql_like ?pat (transcript_col r)
                 \<or> sql_like ?pat (summary_col r)"
  from assms(4) have all: "rows_to_meetings (order_by_date_desc (rows db)) = Inr all"
    by (simp add: get_all_meetings_def)
  have len: "\<not> 50000 < utf8_length ?pat"
    using assms(3) by (simp add: utf8_length_def)
  have pq: "?P r = matches q m" if "row_to_meeting r = Inr m" for r m
    using row_to_meeting_fields [OF that] sql_like_contains [OF assms(1,2)]
    by (simp add: matches_def)
  have "search_meetings db q = rows_to_meetings (filter ?P (order_by_date_desc (rows db)))"
    using len by (simp add: search_meetings_def Let_def filter_order_by)
  also have "\<dots> = Inr (filter (matches q) all)"
    by (rule rows_to_meetings_filter [OF all]) (rule pq)
  finally have res: "search_meetings db q = Inr (filter (matches q) all)" .
  have "newest_first all"
    unfolding newest_first_def by (rule rows_to_meetings_sorted [OF all sorted_order_by])
  then have "newest_first (filter (matches q) all)"
    unfolding newest_first_def by (rule sorted_wrt_filter)
  with res show ?thesis by simp
qed


section \<open>The claims about the record store\<close>

text \<open>
  Claim C9, as the code has it. A record whose \<open>id\<close> is set to a value of the signed
  64-bit range that no row of the store has: the call takes the update branch, whose
  \<open>UPDATE\<close> changes no row; nothing is inserted, nothing is raised, and the call returns
  that identifier. The database and the caller's record are as before, and a later
  \<open>get_meeting\<close> of that identifier finds nothing.
\<close>

theorem save_meeting_unknown_id:
  assumes "id' m = Some i" and "i \<notin> id_col ` set (rows db)" and "in_int64 i"
  shows "save_meeting db m = Inr (i, m, db) \<and> get_meeting db i = Inr None"
  using assms by (simp add: save_meeting_def update_absent get_meeting_absent)

theorem save_meeting_unknown_id_witness:
  "id' (sample_meeting\<lparr>id' := Some 999\<rparr>) = Some 999
   \<and> 999 \<notin> id_col ` set (rows sample_db)
   \<and> in_int64 999
   \<and> rows sample_db = [to_row 1 sample_meeting, to_row 2 python_workshop]
   \<and> save_meeting sample_db (sample_meeting\<lparr>id' := Some 999\<rparr>)
       = Inr (999, sample_meeting\<lparr>id' := Some 999\<rparr>, sample_db)
   \<and> get_meeting sample_db 999 = Inr None"
proof -
  have a: "id' (sample_meeting\<lparr>id' := Some 999\<rparr>) = Some 999" by simp
  have b: "999 \<notin> id_col ` set (rows sample_db)" by (simp add: sample_db_def to_row_sel)
  have c: "in_int64 999" by (rule in_int64_small)
  have d: "rows sample_db = [to_row 1 sample_meeting, to_row 2 python_workshop]"
    by (simp add: sample_db_def)
  show ?thesis
    using save_meeting_unknown_id [OF a b c] a b c d by simp
qed

text \<open>
  Claim C9 as worded covers every identifier that no row has. It fails for an
  identifier outside the signed 64-bit range, which the field \<open>id\<close> of \<open>Meeting\<close> accepts:
  binding it to the \<open>UPDATE\<close> raises \<open>OverflowError\<close>.
\<close>

theorem save_meeting_unknown_id_overflow:
  "id' (sample_meeting\<lparr>id' := Some (2 ^ 63)\<rparr>) = Some (2 ^ 63)
   \<and> 2 ^ 63 \<notin> id_col ` set (rows sample_db)
   \<and> save_meeting sample_db (sample_meeting\<lparr>id' := Some (2 ^ 63)\<rparr>) = Inl OverflowError"
  by (simp add: save_meeting_def sample_db_def to_row_sel in_int64_def)

text \<open>
  Claim C1, as the code has it. Saving a record whose \<open>id\<close> is \<open>None\<close> inserts one row
  under an identifier that no row had, assigns that identifier to the caller's record,
  and a later \<open>get_meeting\<close> of it returns the record with every field. Saving a record
  whose \<open>id\<close> is set returns that identifier and leaves the number of rows and their
  identifiers as they were; when the identifier is that of a stored row, a later
  \<open>get_meeting\<close> of it returns the record with every field. In both cases every other
  identifier reads as before. The insert returns whenever the table has a rowid left to
  give, the update whenever the identifier is in the signed 64-bit range.
\<close>

theorem save_meeting_insert_update:
  "(save_meeting db m = Inr (i, m', db') \<longrightarrow>
      (id' m = None \<longrightarrow>
         i \<notin> id_col ` set (rows db) \<and> m' = m\<lparr>id' := Some i\<rparr>
         \<and> length (rows db') = Suc (length (rows db))
         \<and> get_meeting db' i = Inr (Some m')
         \<and> (\<forall>j. j \<noteq> i \<longrightarrow> get_meeting db' j = get_meeting db j))
      \<and> (id' m = Some k \<longrightarrow>
           i = k \<and> m' = m
           \<and> length (rows db') = length (rows db)
           \<and> map id_col (rows db') = map id_col (rows db)
           \<and> (\<forall>j. j \<noteq> k \<longrightarrow> get_meeting db' j = get_meeting db j)
           \<and> (k \<in> id_col ` set (rows db) \<longrightarrow> get_meeting db' k = Inr (Some m))))
   \<and> (id' m = None \<and> in_int64 (next_rowid db) \<longrightarrow>
        (\<exists>i m' db'. save_meeting db m = Inr (i, m', db')))
   \<and> (id' m = Some k \<and> in_int64 k \<longrightarrow>
        (\<exists>i m' db'. save_meeting db m = Inr (i, m', db')))"
proof (intro conjI impI)
  assume s: "save_meeting db m = Inr (i, m', db')" and n: "id' m = None"
  note ins = save_meeting_insert [OF n s]
  show "i \<notin> id_col ` set (rows db)"
    unfolding ins(1) by (rule next_rowid_fresh)
  show "m' = m\<lparr>id' := Some i\<rparr>" by (rule ins(2))
  show "length (rows db') = Suc (length (rows db))" by (simp add: ins(3))
  show "get_meeting db' i = Inr (Some m')"
    using get_after_save [OF s] n by (simp add: ins(2))
  show "\<forall>j. j \<noteq> i \<longrightarrow> get_meeting db' j = get_meeting db j"
    by (simp add: get_meeting_def ins(3) find_append_old to_row_sel)
next
  assume s: "save_meeting db m = Inr (i, m', db')" and some: "id' m = Some k"
  note upd = save_meeting_update [OF some s]
  show "i = k" by (rule upd(1))
  show "m' = m" by (rule upd(2))
  show "length (rows db') = length (rows db)" by (simp add: upd(3))
  show "map id_col (rows db') = map id_col (rows db)"
    by (simp add: upd(3) to_row_sel cong: map_cong)
  show "\<forall>j. j \<noteq> k \<longrightarrow> get_meeting db' j = get_meeting db j"
    by (simp add: get_meeting_def upd(3) find_update_other to_row_sel)
  show "get_meeting db' k = Inr (Some m)" if k: "k \<in> id_col ` set (rows db)"
  proof -
    have "m\<lparr>id' := Some k\<rparr> = m" using some by simp
    then show ?thesis
      using get_after_save [OF s] k upd(1) by simp
  qed
next
  assume "id' m = None \<and> in_int64 (next_rowid db)"
  then show "\<exists>i m' db'. save_meeting db m = Inr (i, m', db')"
    using save_meeting_insert_returns [of m db] by blast
next
  assume "id' m = Some k \<and> in_int64 k"
  then show "\<exists>i m' db'. save_meeting db m = Inr (i, m', db')"
    using save_meeting_update_returns [of m k db] by blast
qed

theorem save_meeting_insert_update_witness:
  "id' sample_meeting = None
   \<and> in_int64 (next_rowid init_db)
   \<and> save_meeting init_db sample_meeting
       = Inr (1, sample_meeting\<lparr>id' := Some 1\<rparr>, \<lparr>rows = [to_row 1 sample_meeting], seq = 1\<rparr>)
   \<and> get_meeting \<lparr>rows = [to_row 1 sample_meeting], seq = 1\<rparr> 1
       = Inr (Some (sample_meeting\<lparr>id' := Some 1\<rparr>))
   \<and> id' updated_sample = Some 1 \<and> in_int64 1 \<and> 1 \<in> id_col ` set (rows sample_db)
   \<and> save_meeting sample_db updated_sample
       = Inr (1, updated_sample,
              \<lparr>rows = [to_row 1 updated_sample, to_row 2 python_workshop], seq = 2\<rparr>)
   \<and> get_meeting \<lparr>rows = [to_row 1 updated_sample, to_row 2 python_workshop], seq = 2\<rparr> 1
       = Inr (Some updated_sample)"
proof -
  have n: "id' sample_meeting = None" by (simp add: sample_meeting_def)
  have f: "in_int64 (next_rowid init_db)"
    by (simp add: next_rowid_def init_db_def in_int64_def)
  have s: "id' updated_sample = Some 1" by (simp add: updated_sample_def)
  have k: "1 \<in> id_col ` set (rows sample_db)" by (simp add: sample_db_def to_row_sel)
  note ins =
    save_meeting_insert_update
      [of init_db sample_meeting 1 "sample_meeting\<lparr>id' := Some 1\<rparr>"
          "\<lparr>rows = [to_row 1 sample_meeting], seq = 1\<rparr>",
       THEN conjunct1, rule_format, OF save_sample_into_empty]
  note upd =
    save_meeting_insert_update
      [of sample_db updated_sample 1 updated_sample
          "\<lparr>rows = [to_row 1 updated_sample, to_row 2 python_workshop], seq = 2\<rparr>" 1,
       THEN conjunct1, rule_format, OF save_updated_sample]
  have g1: "get_meeting \<lparr>rows = [to_row 1 sample_meeting], seq = 1\<rparr> 1
       = Inr (Some (sample_meeting\<lparr>id' := Some 1\<rparr>))"
    using ins [THEN conjunct1, rule_format, OF n] by blast
  have g2: "get_meeting \<lparr>rows = [to_row 1 updated_sample, to_row 2 python_workshop], seq = 2\<rparr> 1
       = Inr (Some updated_sample)"
    using upd [THEN conjunct2, rule_format, OF s] k by blast
  from n f s k g1 g2 save_sample_into_empty save_updated_sample in_int64_small(1)
  show ?thesis by simp
qed

text \<open>
  Claim C1 as worded covers every record with an identifier present. It fails when the
  identifier is that of no row: the record is not stored, and \<open>get_meeting\<close> of its
  identifier after the save finds nothing.
\<close>

theorem save_meeting_unknown_id_lost:
  "id' (sample_meeting\<lparr>id' := Some 999\<rparr>) = Some 999
   \<and> save_meeting init_db (sample_meeting\<lparr>id' := Some 999\<rparr>)
       = Inr (999, sample_meeting\<lparr>id' := Some 999\<rparr>, init_db)
   \<and> get_meeting init_db 999 = Inr None"
  by (simp add: save_meeting_def init_db_def get_meeting_def in_int64_def)

text \<open>
  Claim C2. The text \<open>json.dumps\<close> writes for a list of strings is read back by
  \<open>json.loads\<close> as the same list; the empty list is written as \<open>[]\<close> and read back as
  the empty list. Hence a record that is stored by \<open>save_meeting\<close> (inserted, or updated
  under the identifier of a stored row) is read back by \<open>get_meeting\<close> with its
  \<open>key_points\<close> and \<open>action_items\<close> unchanged, in the same order.
\<close>

theorem stored_lists_round_trip:
  "json_loads (json_dumps xs) = Inr xs
   \<and> json_dumps [] = ''[]'' \<and> json_loads ''[]'' = Inr []
   \<and> (save_meeting db m = Inr (i, m', db') \<and> (id' m = None \<or> i \<in> id_col ` set (rows db)) \<longrightarrow>
        (\<exists>g. get_meeting db' i = Inr (Some g)
              \<and> key_points g = key_points m \<and> action_items g = action_items m))"
proof (intro conjI impI)
  show "json_loads (json_dumps xs) = Inr xs" by (rule json_loads_dumps)
  show e: "json_dumps [] = ''[]''" by (simp add: json_dumps_def)
  show "json_loads ''[]'' = Inr []" using json_loads_dumps [of "[]"] by (simp add: e)
next
  assume "save_meeting db m = Inr (i, m', db') \<and> (id' m = None \<or> i \<in> id_col ` set (rows db))"
  then have "get_meeting db' i = Inr (Some (m\<lparr>id' := Some i\<rparr>))"
    using get_after_save by blast
  then show "\<exists>g. get_meeting db' i = Inr (Some g)
              \<and> key_points g = key_points m \<and> action_items g = action_items m"
    by simp
qed

theorem stored_lists_round_trip_witness:
  "save_meeting init_db sample_meeting
     = Inr (1, sample_meeting\<lparr>id' := Some 1\<rparr>, \<lparr>rows = [to_row 1 sample_meeting], seq = 1\<rparr>)
   \<and> id' sample_meeting = None
   \<and> (\<exists>g. get_meeting \<lparr>rows = [to_row 1 sample_meeting], seq = 1\<rparr> 1 = Inr (Some g)
          \<and> key_points g = [''New feature prioritized'', ''Bug fixes scheduled'']
          \<and> action_items g = [''Alice to design UI mockups'', ''Bob to fix login bug''])"
proof -
  have n: "id' sample_meeting = None" by (simp add: sample_meeting_def)
  have kp: "key_points sample_meeting = [''New feature prioritized'', ''Bug fixes scheduled'']"
    and ai: "action_items sample_meeting = [''Alice to design UI mockups'', ''Bob to fix login bug'']"
    by (simp_all add: sample_meeting_def)
  from stored_lists_round_trip
         [of "[]" init_db sample_meeting 1 "sample_meeting\<lparr>id' := Some 1\<rparr>"
             "\<lparr>rows = [to_row 1 sample_meeting], seq = 1\<rparr>"]
       save_sample_into_empty n
  have "\<exists>g. get_meeting \<lparr>rows = [to_row 1 sample_meeting], seq = 1\<rparr> 1 = Inr (Some g)
          \<and> key_points g = key_points sample_meeting
          \<and> action_items g = action_items sample_meeting"
    by blast
  with save_sample_into_empty n kp ai show ?thesis by simp
qed

text \<open>
  Claim C6, as the code has it. When a row has the identifier, \<open>delete_meeting\<close> returns
  the \<open>audio_path\<close> stored in it and removes it: \<open>get_meeting\<close> of the identifier then
  finds nothing, and every other identifier reads as before. For a record just saved,
  the value returned is the record's \<open>audio_path\<close>, the empty string included (it is
  \<open>Some []\<close>, not \<open>None\<close>). When no row has the identifier and the identifier is in the
  signed 64-bit range, the result is \<open>None\<close> and the database is unchanged. Whatever the
  call returns, the files on disk are as before.
\<close>

theorem delete_meeting_cases:
  "(find (\<lambda>r. id_col r = i) (rows db) = Some r \<and> in_int64 i \<longrightarrow>
      delete_meeting db fs i
        = Inr (Some (audio_path_col r),
               db\<lparr>rows := filter (\<lambda>r. id_col r \<noteq> i) (rows db)\<rparr>, fs)
      \<and> get_meeting (db\<lparr>rows := filter (\<lambda>r. id_col r \<noteq> i) (rows db)\<rparr>) i = Inr None
      \<and> (\<forall>j. j \<noteq> i \<longrightarrow>
            get_meeting (db\<lparr>rows := filter (\<lambda>r. id_col r \<noteq> i) (rows db)\<rparr>) j
            = get_meeting db j))
   \<and> (save_meeting db0 m = Inr (i, m', db) \<and> (id' m = None \<or> i \<in> id_col ` set (rows db0)) \<longrightarrow>
        delete_meeting db fs i
          = Inr (Some (audio_path m),
                 db\<lparr>rows := filter (\<lambda>r. id_col r \<noteq> i) (rows db)\<rparr>, fs)
        \<and> get_meeting (db\<lparr>rows := filter (\<lambda>r. id_col r \<noteq> i) (rows db)\<rparr>) i = Inr None)
   \<and> (i \<notin> id_col ` set (rows db) \<and> in_int64 i \<longrightarrow> delete_meeting db fs i = Inr (None, db, fs))
   \<and> (\<forall>p db' fs'. delete_meeting db fs i = Inr (p, db', fs') \<longrightarrow> fs' = fs)"
proof -
  let ?db' = "db\<lparr>rows := filter (\<lambda>r. id_col r \<noteq> i) (rows db)\<rparr>"
  have known: "delete_meeting db fs i = Inr (Some (audio_path_col r), ?db', fs)
      \<and> get_meeting ?db' i = Inr None
      \<and> (\<forall>j. j \<noteq> i \<longrightarrow> get_meeting ?db' j = get_meeting db j)"
    if f: "find (\<lambda>r. id_col r = i) (rows db) = Some r" and r: "in_int64 i" for r
    using f r by (simp add: delete_meeting_def get_meeting_def find_filter_out find_filter_other)
  have saved: "delete_meeting db fs i = Inr (Some (audio_path m), ?db', fs)
        \<and> get_meeting ?db' i = Inr None"
    if s: "save_meeting db0 m = Inr (i, m', db) \<and> (id' m = None \<or> i \<in> id_col ` set (rows db0))"
  proof -
    from s have "find (\<lambda>r. id_col r = i) (rows db) = Some (to_row i m)"
      using first_row_after_save by blast
    moreover from s have "in_int64 i" using saved_id_in_int64 by blast
    ultimately show ?thesis using known [of "to_row i m"] by (simp add: to_row_sel)
  qed
  have unknown: "delete_meeting db fs i = Inr (None, db, fs)"
    if "i \<notin> id_col ` set (rows db) \<and> in_int64 i"
    using that by (simp add: delete_meeting_def find_none_iff_ids [THEN iffD2])
  have frame: "\<forall>p db' fs'. delete_meeting db fs i = Inr (p, db', fs') \<longrightarrow> fs' = fs"
    by (auto simp: delete_meeting_def split: if_splits option.splits)
  from known saved unknown frame show ?thesis by blast
qed

theorem delete_meeting_cases_witness:
  "save_meeting init_db sample_meeting
     = Inr (1, sample_meeting\<lparr>id' := Some 1\<rparr>, \<lparr>rows = [to_row 1 sample_meeting], seq = 1\<rparr>)
   \<and> id' sample_meeting = None
   \<and> delete_meeting \<lparr>rows = [to_row 1 sample_meeting], seq = 1\<rparr> {''uploads/a.wav''} 1
       = Inr (Some [], \<lparr>rows = [], seq = 1\<rparr>, {''uploads/a.wav''})
   \<and> get_meeting \<lparr>rows = [], seq = 1\<rparr> 1 = Inr None
   \<and> find (\<lambda>r. id_col r = 2) (rows sample_db) = Some (to_row 2 python_workshop)
   \<and> in_int64 2
   \<and> delete_meeting sample_db {''uploads/workshop.wav''} 2
       = Inr (Some ''uploads/workshop.wav'',
              \<lparr>rows = [to_row 1 sample_meeting], seq = 2\<rparr>, {''uploads/workshop.wav''})
   \<and> 999 \<notin> id_col ` set (rows sample_db) \<and> in_int64 999
   \<and> delete_meeting sample_db {''uploads/workshop.wav''} 999
       = Inr (None, sample_db, {''uploads/workshop.wav''})"
proof -
  let ?db = "\<lparr>rows = [to_row 1 sample_meeting], seq = 1\<rparr>"
  have n: "id' sample_meeting = None" by (simp add: sample_meeting_def)
  have a: "audio_path sample_meeting = []" by (simp add: sample_meeting_def)
  have f: "find (\<lambda>r. id_col r = 2) (rows sample_db) = Some (to_row 2 python_workshop)"
    by (simp add: sample_db_def to_row_sel)
  have p: "audio_path_col (to_row 2 python_workshop) = ''uploads/workshop.wav''"
    by (simp add: to_row_sel python_workshop_def)
  have u: "999 \<notin> id_col ` set (rows sample_db)"
    by (simp add: sample_db_def to_row_sel)
  from delete_meeting_cases
         [of 1 ?db _ "{''uploads/a.wav''}" init_db sample_meeting "sample_meeting\<lparr>id' := Some 1\<rparr>",
          THEN conjunct2, THEN conjunct1]
       save_sample_into_empty n a
  have d1: "delete_meeting ?db {''uploads/a.wav''} 1
            = Inr (Some [], \<lparr>rows = [], seq = 1\<rparr>, {''uploads/a.wav''})
        \<and> get_meeting \<lparr>rows = [], seq = 1\<rparr> 1 = Inr None"
    by (simp add: to_row_sel)
  from delete_meeting_cases
         [of 2 sample_db "to_row 2 python_workshop" "{''uploads/workshop.wav''}",
          THEN conjunct1] f p in_int64_small(2)
  have d2: "delete_meeting sample_db {''uploads/workshop.wav''} 2
       = Inr (Some ''uploads/workshop.wav'',
              \<lparr>rows = [to_row 1 sample_meeting], seq = 2\<rparr>, {''uploads/workshop.wav''})"
    by (simp add: sample_db_def to_row_sel)
  from delete_meeting_cases
         [of 999 sample_db _ "{''uploads/workshop.wav''}",
          THEN conjunct2, THEN conjunct2, THEN conjunct1] u in_int64_small(4)
  have d3: "delete_meeting sample_db {''uploads/workshop.wav''} 999
       = Inr (None, sample_db, {''uploads/workshop.wav''})"
    by simp
  from save_sample_into_empty n d1 f d2 u d3 in_int64_small show ?thesis by simp
qed

text \<open>
  Claim C6 as worded covers every identifier that no row has. It fails for an
  identifier outside the signed 64-bit range: binding it to the \<open>SELECT\<close> raises
  \<open>OverflowError\<close>, so nothing is returned.
\<close>

theorem delete_meeting_overflow:
  "2 ^ 63 \<notin> id_col ` set (rows sample_db)
   \<and> delete_meeting sample_db {''uploads/workshop.wav''} (2 ^ 63) = Inl OverflowError"
  by (simp add: delete_meeting_def sample_db_def to_row_sel in_int64_def)

text \<open>
  Claim C10. The empty query gives the pattern \<open>%%\<close>, which every field matches:
  \<open>search_meetings\<close> with the empty query is \<open>get_all_meetings\<close>, whose result holds one
  record for each row, by decreasing date.
\<close>

theorem search_empty_query:
  "search_meetings db [] = get_all_meetings db
   \<and> (\<forall>ms. get_all_meetings db = Inr ms \<longrightarrow>
          newest_first ms
          \<and> mset (map id' ms) = mset (map (\<lambda>r. Some (id_col r)) (rows db)))"
proof -
  have "utf8_length ''%%'' = 2" by (simp add: utf8_length_def)
  then have eq: "search_meetings db [] = get_all_meetings db"
    by (simp add: search_meetings_def get_all_meetings_def sql_like_percent_percent)
  have "newest_first ms \<and> mset (map id' ms) = mset (map (\<lambda>r. Some (id_col r)) (rows db))"
    if ms: "get_all_meetings db = Inr ms" for ms
  proof -
    from ms have r: "rows_to_meetings (order_by_date_desc (rows db)) = Inr ms"
      by (simp add: get_all_meetings_def)
    have s: "newest_first ms"
      unfolding newest_first_def
      by (rule rows_to_meetings_sorted [OF r sorted_order_by])
    have "mset (map id' ms)
          = mset (map (\<lambda>r. Some (id_col r)) (order_by_date_desc (rows db)))"
      by (simp add: rows_to_meetings_ids [OF r])
    also have "\<dots> = image_mset (\<lambda>r. Some (id_col r)) (mset (order_by_date_desc (rows db)))"
      by simp
    also have "\<dots> = mset (map (\<lambda>r. Some (id_col r)) (rows db))"
      by (simp add: mset_order_by)
    finally show ?thesis using s by simp
  qed
  with eq show ?thesis by blast
qed

theorem search_empty_query_witness:
  "search_meetings sample_db [] = get_all_meetings sample_db
   \<and> get_all_meetings sample_db
       = Inr [python_workshop\<lparr>id' := Some 2\<rparr>, sample_meeting\<lparr>id' := Some 1\<rparr>]
   \<and> newest_first [python_workshop\<lparr>id' := Some 2\<rparr>, sample_meeting\<lparr>id' := Some 1\<rparr>]"
  using search_empty_query [of sample_db] sample_db_all by simp

text \<open>
  Claim C5 at its failing input. The query \<open>_\<close> is pasted into the pattern \<open>%_%\<close> with
  its wildcard unescaped, so \<open>search_meetings\<close> returns both records of the sample
  store, although no title, transcript or summary of theirs contains an underscore,
  with or without regard to case.
\<close>

theorem search_meetings_wildcard_query:
  "search_meetings sample_db ''_''
     = Inr [python_workshop\<lparr>id' := Some 2\<rparr>, sample_meeting\<lparr>id' := Some 1\<rparr>]
   \<and> \<not> contains_nocase ''_'' (title sample_meeting)
   \<and> \<not> contains_nocase ''_'' (transcript sample_meeting)
   \<and> \<not> contains_nocase ''_'' (summary sample_meeting)
   \<and> \<not> contains_nocase ''_'' (title python_workshop)
   \<and> \<not> contains_nocase ''_'' (transcript python_workshop)
   \<and> \<not> contains_nocase ''_'' (summary python_workshop)"
proof -
  have d: "\<not> date python_workshop \<le> date sample_meeting"
    by (simp add: sample_meeting_def python_workshop_def)
  have l: "sql_like ''%_%'' (title python_workshop)" "sql_like ''%_%'' (title sample_meeting)"
    by (simp_all add: sql_like_def c_str_def python_workshop_def sample_meeting_def
        like_any_one del: like.simps)
  have u: "\<not> 50000 < utf8_length ''%_%''" by (simp add: utf8_length_def)
  have b: "search_meetings sample_db ''_''
       = Inr [python_workshop\<lparr>id' := Some 2\<rparr>, sample_meeting\<lparr>id' := Some 1\<rparr>]"
    using l d u
    by (simp add: search_meetings_def sample_db_def order_by_date_desc_def to_row_sel
        row_to_meeting_to_row)
  have c: "\<not> contains_nocase ''_'' (title sample_meeting)"
    "\<not> contains_nocase ''_'' (transcript sample_meeting)"
    "\<not> contains_nocase ''_'' (summary sample_meeting)"
    "\<not> contains_nocase ''_'' (title python_workshop)"
    "\<not> contains_nocase ''_'' (transcript python_workshop)"
    "\<not> contains_nocase ''_'' (summary python_workshop)"
    by code_simp+
  from b c show ?thesis by simp
qed


section \<open>Properties of the summarization pipeline\<close>

lemma requests_chat: "requests (snd (chat llm p msg c)) = requests c @ [(p, msg)]"
  by (simp add: chat_def Let_def split: prod.splits sum.splits)

lemma requests_extract_key_points:
  "requests (snd (extract_key_points llm loads t c))
   = requests c @ [(key_points_prompt, transcript_message (truncated t))]"
  using requests_chat [of llm key_points_prompt "transcript_message (truncated t)" c]
  by (auto simp: extract_key_points_def Let_def split: prod.splits sum.splits)

lemma requests_extract_action_items:
  "requests (snd (extract_action_items llm loads t c))
   = requests c @ [(action_items_prompt, transcript_message (truncated t))]"
  using requests_chat [of llm action_items_prompt "transcript_message (truncated t)" c]
  by (auto simp: extract_action_items_def Let_def split: prod.splits sum.splits)

lemma requests_generate_title:
  "requests (snd (generate_title llm t c))
   = requests c @ [(title_prompt, transcript_message (truncated t))]"
  by (simp add: generate_title_def requests_chat)

lemma requests_answer_question:
  "requests (snd (answer_question llm t q c))
   = requests c @ [(question_prompt,
                    transcript_message (truncated t) @ ''\<newline>\<newline>'' @ ''Question: '' @ q)]"
  by (simp add: answer_question_def requests_chat)

lemma split_from_append_space:
  "isspace s \<Longrightarrow> split_from w (t @ s # u) = split_from w t @ split u"
  by (induction t arbitrary: w) (simp_all add: split_def)

lemma split_append_space: "isspace s \<Longrightarrow> split (t @ s # u) = split t @ split u"
  by (simp add: split_def split_from_append_space [of s "[]" t u, unfolded split_def])

lemma split_words_then:
  "split (concat (replicate n ''w '') @ u) = replicate n ''w'' @ split u"
proof (induction n)
  case 0
  show ?case by simp
next
  case (Suc n)
  have sp: "isspace (CHR '' '')" by (simp add: isspace_def)
  have "split (''w'' @ CHR '' '' # (concat (replicate n ''w '') @ u))
        = split ''w'' @ split (concat (replicate n ''w '') @ u)"
    by (rule split_append_space [OF sp])
  moreover have "split ''w'' = [''w'']" by (simp add: split_def isspace_def)
  ultimately show ?case using Suc by simp
qed

lemma split_words_then': "split (words_then n u) = replicate n ''w'' @ split u"
  by (simp add: words_then_def split_words_then)

lemma concat_slices_of: "0 < n \<Longrightarrow> concat (slices_of n xs) = xs"
proof (induction n xs rule: slices_of.induct)
  case (1 n xs)
  then show ?case by (subst slices_of.simps) simp
qed

lemma slices_of_bounded:
  "ws \<in> set (slices_of n xs) \<Longrightarrow> ws \<noteq> [] \<and> length ws \<le> n \<and> set ws \<subseteq> set xs"
proof (induction n xs rule: slices_of.induct)
  case (1 n xs)
  show ?case
  proof (cases "n = 0 \<or> xs = []")
    case True
    with "1.prems" show ?thesis by (subst (asm) slices_of.simps) simp
  next
    case False
    with "1.prems" have "ws = take n xs \<or> ws \<in> set (slices_of n (drop n xs))"
      by (subst (asm) slices_of.simps) simp
    then show ?thesis
    proof
      assume "ws = take n xs"
      with False show ?thesis by (auto dest: in_set_takeD)
    next
      assume "ws \<in> set (slices_of n (drop n xs))"
      from "1.IH" [OF False this] show ?thesis by (auto dest: in_set_dropD)
    qed
  qed
qed

lemma length_le_slices_of: "0 < n \<Longrightarrow> length xs \<le> n * length (slices_of n xs)"
proof (induction n xs rule: slices_of.induct)
  case (1 n xs)
  show ?case
  proof (cases "xs = []")
    case True
    then show ?thesis by simp
  next
    case False
    with "1.prems" have ih: "length (drop n xs) \<le> n * length (slices_of n (drop n xs))"
      by (intro "1.IH") simp_all
    have "slices_of n xs = take n xs # slices_of n (drop n xs)"
      using False "1.prems" by (subst slices_of.simps) simp
    with ih show ?thesis by simp
  qed
qed

lemma slices_of_single: "0 < n \<Longrightarrow> xs \<noteq> [] \<Longrightarrow> length xs \<le> n \<Longrightarrow> slices_of n xs = [xs]"
  by (subst slices_of.simps, subst slices_of.simps) simp

lemma slices_of_Nil: "slices_of n [] = []"
  by (subst slices_of.simps) simp

lemma split_from_words:
  "(\<forall>c \<in> set a. \<not> isspace c) \<Longrightarrow> x \<in> set (split_from a t) \<Longrightarrow> is_word x"
proof (induction t arbitrary: a)
  case Nil
  then show ?case by (auto simp: is_word_def split: if_splits)
next
  case (Cons c t)
  show ?case
  proof (cases "isspace c")
    case True
    with Cons.prems have "x = a \<and> a \<noteq> [] \<or> x \<in> set (split_from [] t)"
      by (auto split: if_splits)
    then show ?thesis
    proof
      assume "x = a \<and> a \<noteq> []"
      with Cons.prems(1) show ?thesis by (simp add: is_word_def)
    next
      assume "x \<in> set (split_from [] t)"
      then show ?thesis by (intro Cons.IH [of "[]"]) simp_all
    qed
  next
    case False
    with Cons.prems have "x \<in> set (split_from (a @ [c]) t)" by simp
    moreover have "\<forall>d \<in> set (a @ [c]). \<not> isspace d" using False Cons.prems(1) by simp
    ultimately show ?thesis by (intro Cons.IH [of "a @ [c]"])
  qed
qed

lemma split_words: "x \<in> set (split t) \<Longrightarrow> is_word x"
  unfolding split_def by (rule split_from_words [of "[]"]) simp_all

lemma split_from_word:
  "(\<forall>c \<in> set w. \<not> isspace c) \<Longrightarrow> split_from a (w @ r) = split_from (a @ w) r"
  by (induction w arbitrary: a) simp_all

lemma split_word: "is_word w \<Longrightarrow> split w = [w]"
  using split_from_word [of w "[]" "[]"] by (simp add: split_def is_word_def)

lemma split_join_words:
  "\<forall>w \<in> set ws. is_word w \<Longrightarrow> split (join '' '' ws) = ws"
proof (induction ws rule: induct_list012)
  case 1
  show ?case by (simp add: split_def)
next
  case (2 x)
  then show ?case by (simp add: split_word)
next
  case (3 x y ys)
  have sp: "isspace (CHR '' '')" by (simp add: isspace_def)
  have "split (x @ CHR '' '' # join '' '' (y # ys)) = split x @ split (join '' '' (y # ys))"
    by (rule split_append_space [OF sp])
  with 3 show ?case by (simp add: split_word)
qed

lemma chat_Inr_requests:
  "chat llm p msg c = (r, c') \<Longrightarrow> requests c' = requests c @ [(p, msg)]"
  using requests_chat [of llm p msg c] by simp

lemma chat_each_Inr:
  "chat_each llm p xs c = (Inr ps, c') \<Longrightarrow>
   length ps = length xs
   \<and> requests c' = requests c @ map (\<lambda>x. (p, transcript_message x)) xs"
proof (induction xs arbitrary: c ps)
  case Nil
  then show ?case by simp
next
  case (Cons x xs)
  from Cons.prems obtain a c1 where
    a: "chat llm p (transcript_message x) c = (Inr a, c1)"
    by (cases "chat llm p (transcript_message x) c") (auto split: sum.splits)
  with Cons.prems obtain as where
    as: "chat_each llm p xs c1 = (Inr as, c')" "ps = a # as"
    by (cases "chat_each llm p xs c1") (auto split: sum.splits)
  from Cons.IH [OF as(1)] chat_Inr_requests [OF a] as(2) show ?case by simp
qed

lemma chat_never_raises:
  "never_raises llm \<Longrightarrow> \<exists>r c'. chat llm p msg c = (Inr r, c')"
proof -
  assume "never_raises llm"
  then obtain a s' where "llm (service c) p msg = (Inr a, s')"
    unfolding never_raises_def by blast
  then show ?thesis by (simp add: chat_def Let_def)
qed

lemma chat_each_never_raises:
  "never_raises llm \<Longrightarrow> \<exists>ps c'. chat_each llm p xs c = (Inr ps, c')"
proof (induction xs arbitrary: c)
  case Nil
  show ?case by simp
next
  case (Cons x xs)
  from chat_never_raises [OF Cons.prems] obtain r c1 where
    "chat llm p (transcript_message x) c = (Inr r, c1)" by blast
  moreover from Cons.IH [OF Cons.prems] obtain ps c2 where
    "chat_each llm p xs c1 = (Inr ps, c2)" by blast
  ultimately show ?case by simp
qed

lemma chunk_transcript_800:
  "chunk_transcript t 800 = Inr (map (join '' '') (slices_of 800 (split t)))"
  by (simp add: chunk_transcript_def)

lemma split_chunks:
  "map split (map (join '' '') (slices_of 800 (split t))) = slices_of 800 (split t)"
proof -
  have "split (join '' '' ws) = ws" if "ws \<in> set (slices_of 800 (split t))" for ws
  proof (rule split_join_words, rule ballI)
    fix w assume "w \<in> set ws"
    with slices_of_bounded [OF that] have "w \<in> set (split t)" by auto
    then show "is_word w" by (rule split_words)
  qed
  then show ?thesis by (simp add: map_idI)
qed

lemma generate_summary_short:
  assumes "length (split t) \<le> 800"
  shows "requests (snd (generate_summary llm t c))
         = requests c @ [(summary_prompt, transcript_message (if split t = [] then [] else t))]"
proof (cases "split t = []")
  case True
  then show ?thesis
    by (simp add: generate_summary_def chunk_transcript_800 slices_of_Nil requests_chat)
next
  case False
  with assms have "slices_of 800 (split t) = [split t]"
    by (intro slices_of_single) simp_all
  with False show ?thesis
    by (simp add: generate_summary_def chunk_transcript_800 requests_chat)
qed

lemma generate_summary_long:
  assumes "length chunks \<noteq> 1" and "chunk_transcript t 800 = Inr chunks"
    and "generate_summary llm t c = (Inr s, c')"
  shows "\<exists>partial c1. chat_each llm summary_prompt chunks c = (Inr partial, c1)
           \<and> length partial = length chunks
           \<and> chat llm summary_prompt (transcript_message (join ''\<newline>\<newline>'' partial)) c1 = (Inr s, c')
           \<and> requests c' = requests c @ map (\<lambda>ch. (summary_prompt, transcript_message ch)) chunks
                             @ [(summary_prompt, transcript_message (join ''\<newline>\<newline>'' partial))]"
proof -
  from assms obtain partial c1 where
    p: "chat_each llm summary_prompt chunks c = (Inr partial, c1)"
    and f: "chat llm summary_prompt (transcript_message (join ''\<newline>\<newline>'' partial)) c1 = (Inr s, c')"
    by (cases "chat_each llm summary_prompt chunks c")
       (auto simp: generate_summary_def Let_def split: sum.splits)
  from chat_each_Inr [OF p] chat_Inr_requests [OF f] p f show ?thesis by simp
qed

lemma startswith_prefix: "startswith s p \<longleftrightarrow> prefix p s"
proof
  assume "startswith s p"
  then have "s = p @ drop (length p) s"
    unfolding startswith_def by (metis append_take_drop_id)
  then show "prefix p s" by (rule prefixI)
next
  assume "prefix p s"
  then show "startswith s p" by (auto simp: startswith_def prefix_def)
qed

lemma replace_absent: "\<not> sublist old s \<Longrightarrow> replace old new s = s"
proof (induction old new s rule: replace.induct)
  case (1 old new)
  show ?case by simp
next
  case (2 old new c cs)
  from "2.prems" have np: "\<not> prefix old (c # cs)" and ns: "\<not> sublist old cs"
    by (auto simp: sublist_Cons_right)
  from np have "\<not> (old \<noteq> [] \<and> startswith (c # cs) old)"
    by (simp add: startswith_prefix)
  with "2.IH"(2) ns show ?case by auto
qed

lemma rfind_from_last:
  "rfind_from i [x] (s @ [x]) = int i + int (length s)"
  by (induction s arbitrary: i) (simp_all add: startswith_def Let_def)

lemma strip_bracketed:
  "\<not> isspace a \<Longrightarrow> \<not> isspace b \<Longrightarrow> strip (a # s @ [b]) = a # s @ [b]"
  by (simp add: strip_def)

lemma json_dumps_shape: "\<exists>body. json_dumps xs = CHR ''['' # body @ '']''"
  by (simp add: json_dumps_def)

lemma clean_response_plain:
  assumes "\<not> sublist ''```'' (json_dumps xs)"
  shows "clean_response (json_dumps xs) = json_dumps xs"
proof -
  obtain body where b: "json_dumps xs = CHR ''['' # body @ '']''"
    using json_dumps_shape by blast
  let ?s = "CHR ''['' # body @ '']''"
  have st: "strip ?s = ?s"
    using strip_bracketed [of "CHR ''[''" "CHR '']''" body] by (simp add: isspace_def)
  have n3: "\<not> sublist ''```'' ?s" using assms b by simp
  have "prefix ''```'' ''```json''" by simp
  then have "sublist ''```'' ''```json''" by (rule prefix_imp_sublist)
  with n3 have n7: "\<not> sublist ''```json'' ?s"
    using sublist_order.order_trans by blast
  have r: "replace ''```'' [] (replace ''```json'' [] ?s) = ?s"
    by (simp only: replace_absent [OF n7] replace_absent [OF n3])
  have f: "find_str ?s ''['' = 0" by (simp add: find_str_def startswith_def)
  have rf: "rfind_str ?s '']'' = int (length body) + 1"
    using rfind_from_last [of 0 "CHR '']''" "CHR ''['' # body"] by (simp add: rfind_str_def)
  have sl: "slice ?s 0 (int (length body) + 1 + 1) = ?s"
    by (simp add: slice_def nat_add_distrib)
  show ?thesis
    unfolding b clean_response_def Let_def st r f rf using sl by simp
qed

lemma parse_json_list_cases:
  "(loads (clean_response r) = Inr v \<longrightarrow> parse_json_list loads r = Inr (Decoded v))
   \<and> (loads (clean_response r) = Inl JSONDecodeError \<longrightarrow>
        parse_json_list loads r = Inr (Lines (fallback_lines r)))
   \<and> (loads (clean_response r) = Inl e \<and> e \<noteq> JSONDecodeError \<longrightarrow>
        parse_json_list loads r = Inl e)"
  by (simp add: parse_json_list_def)

lemma parse_json_list_plain:
  "\<not> sublist ''```'' (json_dumps xs) \<Longrightarrow>
   parse_json_list strict_loads (json_dumps xs) = Inr (Decoded xs)"
  by (simp add: parse_json_list_def clean_response_plain strict_loads_def json_loads_dumps)

lemma rfind_from_absent: "x \<notin> set s \<Longrightarrow> rfind_from i [x] s = -1"
  by (induction s arbitrary: i) (auto simp: startswith_def Let_def)

lemma strip_brackets: "strip (replicate n (CHR ''['')) = replicate n (CHR ''['')"
proof -
  have "dropWhile isspace (replicate n (CHR ''['')) = replicate n (CHR ''['')"
    by (cases n) (simp_all add: isspace_def)
  then show ?thesis by (simp add: strip_def)
qed

lemma clean_response_brackets:
  "clean_response (replicate (Suc n) (CHR ''['')) = replicate (Suc n) (CHR ''['')"
proof -
  let ?s = "replicate (Suc n) (CHR ''['')"
  have n3: "\<not> sublist ''```'' ?s"
  proof
    assume "sublist ''```'' ?s"
    then have "set ''```'' \<subseteq> set ?s" by (rule set_mono_sublist)
    then show False by simp
  qed
  have n7: "\<not> sublist ''```json'' ?s"
  proof
    assume "sublist ''```json'' ?s"
    then have "set ''```json'' \<subseteq> set ?s" by (rule set_mono_sublist)
    then show False by simp
  qed
  have r: "replace ''```'' [] (replace ''```json'' [] ?s) = ?s"
    by (simp only: replace_absent [OF n7] replace_absent [OF n3])
  have f: "find_str ?s ''['' = 0" by (simp add: find_str_def startswith_def)
  have rf: "rfind_str ?s '']'' = -1"
    unfolding rfind_str_def by (rule rfind_from_absent) simp
  show ?thesis
    unfolding clean_response_def Let_def strip_brackets r f rf by simp
qed

lemma deep_answer_raises:
  "clean_response deep_answer = deep_answer"
  "strip deep_answer = deep_answer"
  "nested_loads deep_answer = Inl RecursionError"
proof -
  have d: "deep_answer = replicate (Suc 1999) (CHR ''['')" by (simp add: deep_answer_def)
  show "clean_response deep_answer = deep_answer"
    unfolding d by (rule clean_response_brackets)
  show "strip deep_answer = deep_answer"
    unfolding d by (rule strip_brackets)
  show "nested_loads deep_answer = Inl RecursionError"
    by (simp add: nested_loads_def deep_answer_def takeWhile_replicate)
qed

lemma parse_json_list_examples:
  "parse_json_list nested_loads fenced_answer = Inr (Decoded [''Ship Friday'', ''QA to Bob''])"
  "parse_json_list nested_loads prose_answer
   = Inr (Lines [''Key points:'', ''ship on Friday'', ''QA goes to Bob''])"
  by code_simp+

lemma canned_chat:
  "chat (canned_llm answer) p msg fresh_client
   = (Inr (strip answer), \<lparr>service = (), requests = [(p, msg)]\<rparr>)"
  by (simp add: chat_def canned_llm_def fresh_client_def)

lemma silent_run:
  "process_audio (hearing ''   '') ''uploads/a.wav'' empty_world = (NoSpeechDetected, empty_world)"
  by code_simp

lemma spoken_run:
  "fst (process_audio (hearing spoken_words) ''uploads/a.wav'' empty_world) = MeetingProcessed"
  by code_simp

lemma silent_heard:
  "\<not> (case sf_info (hearing ''   '') ''uploads/a.wav'' of None \<Rightarrow> False
        | Some duration \<Rightarrow> duration < 1)"
  "transcribe_file (whisper_model (hearing ''   '')) ''uploads/a.wav''
   = Inr \<lparr>text_of = [], segments = [], language = ''en''\<rparr>"
  by code_simp+



section \<open>The claims about the pipeline and the orchestrator\<close>

text \<open>
  Claim C8. Each of \<open>generate_title\<close>, \<open>extract_key_points\<close>, \<open>extract_action_items\<close> and
  \<open>answer_question\<close> issues one request, whose user message is the text
  \<open>Meeting transcript:\<close>, a blank line, and the first 800 words of the transcript joined
  by single spaces (followed, for a question, by a blank line and the question). Two
  transcripts with the same first 800 words give the same call: what follows the 800th
  word has no effect.
\<close>

theorem only_first_800_words_submitted:
  "requests (snd (generate_title llm t c))
     = requests c @
       [(title_prompt, ''Meeting transcript:\<newline>\<newline>'' @ join '' '' (take 800 (split t)))]
   \<and> requests (snd (extract_key_points llm loads t c))
     = requests c @
       [(key_points_prompt, ''Meeting transcript:\<newline>\<newline>'' @ join '' '' (take 800 (split t)))]
   \<and> requests (snd (extract_action_items llm loads t c))
     = requests c @
       [(action_items_prompt,
         ''Meeting transcript:\<newline>\<newline>'' @ join '' '' (take 800 (split t)))]
   \<and> requests (snd (answer_question llm t q c))
     = requests c @
       [(question_prompt,
         ''Meeting transcript:\<newline>\<newline>'' @ join '' '' (take 800 (split t))
           @ ''\<newline>\<newline>Question: '' @ q)]
   \<and> (take 800 (split t') = take 800 (split t) \<longrightarrow>
        generate_title llm t' c = generate_title llm t c
        \<and> extract_key_points llm loads t' c = extract_key_points llm loads t c
        \<and> extract_action_items llm loads t' c = extract_action_items llm loads t c
        \<and> answer_question llm t' q c = answer_question llm t q c)"
proof -
  have "truncated t' = truncated t" if "take 800 (split t') = take 800 (split t)"
    unfolding truncated_def by (rule arg_cong [OF that])
  then have "take 800 (split t') = take 800 (split t) \<longrightarrow>
        generate_title llm t' c = generate_title llm t c
        \<and> extract_key_points llm loads t' c = extract_key_points llm loads t c
        \<and> extract_action_items llm loads t' c = extract_action_items llm loads t c
        \<and> answer_question llm t' q c = answer_question llm t q c"
    by (simp add: generate_title_def extract_key_points_def extract_action_items_def
        answer_question_def)
  then show ?thesis
    using requests_generate_title [of llm t c] requests_extract_key_points [of llm loads t c]
      requests_extract_action_items [of llm loads t c] requests_answer_question [of llm t q c]
    by (simp add: truncated_def transcript_message_def)
qed

theorem only_first_800_words_submitted_witness:
  "take 800 (split (words_then 800 ''and the rest''))
     = take 800 (split (words_then 800 ''something else''))
   \<and> generate_title echo_llm (words_then 800 ''and the rest'') fresh_client
     = generate_title echo_llm (words_then 800 ''something else'') fresh_client
   \<and> answer_question echo_llm (words_then 800 ''and the rest'') ''Who?'' fresh_client
     = answer_question echo_llm (words_then 800 ''something else'') ''Who?'' fresh_client
   \<and> requests (snd (generate_title echo_llm (words_then 800 ''and the rest'') fresh_client))
     = [(title_prompt, ''Meeting transcript:\<newline>\<newline>'' @ join '' '' (replicate 800 ''w''))]
   \<and> requests (snd (extract_key_points echo_llm strict_loads ''We  agreed\<newline> to ship'' fresh_client))
     = [(key_points_prompt, ''Meeting transcript:\<newline>\<newline>We agreed to ship'')]
   \<and> requests (snd (answer_question echo_llm ''We  agreed\<newline> to ship'' ''Who?'' fresh_client))
     = [(question_prompt,
         ''Meeting transcript:\<newline>\<newline>We agreed to ship\<newline>\<newline>Question: Who?'')]"
proof -
  have h: "take 800 (split (words_then 800 ''and the rest''))
     = take 800 (split (words_then 800 ''something else''))"
    by (simp add: split_words_then')
  have w: "take 800 (split (words_then 800 ''and the rest'')) = replicate 800 ''w''"
    by (simp add: split_words_then')
  have s: "join '' '' (take 800 (split ''We  agreed\<newline> to ship'')) = ''We agreed to ship''"
    by code_simp
  have r: "requests fresh_client = []" by (simp add: fresh_client_def)
  note long =
    only_first_800_words_submitted
      [of echo_llm "words_then 800 ''something else''" fresh_client strict_loads
          "''Who?''" "words_then 800 ''and the rest''"]
  note long' =
    only_first_800_words_submitted
      [of echo_llm "words_then 800 ''and the rest''" fresh_client strict_loads "''Who?''"]
  note short =
    only_first_800_words_submitted
      [of echo_llm "''We  agreed\<newline> to ship''" fresh_client strict_loads "''Who?''"]
  from long h have e: "generate_title echo_llm (words_then 800 ''and the rest'') fresh_client
     = generate_title echo_llm (words_then 800 ''something else'') fresh_client
   \<and> answer_question echo_llm (words_then 800 ''and the rest'') ''Who?'' fresh_client
     = answer_question echo_llm (words_then 800 ''something else'') ''Who?'' fresh_client"
    by simp
  from long' [THEN conjunct1] w r
  have t: "requests (snd (generate_title echo_llm (words_then 800 ''and the rest'') fresh_client))
     = [(title_prompt, ''Meeting transcript:\<newline>\<newline>'' @ join '' '' (replicate 800 ''w''))]"
    by simp
  from short [THEN conjunct2, THEN conjunct1] s r
  have k: "requests (snd (extract_key_points echo_llm strict_loads ''We  agreed\<newline> to ship'' fresh_client))
     = [(key_points_prompt, ''Meeting transcript:\<newline>\<newline>We agreed to ship'')]"
    by simp
  from short [THEN conjunct2, THEN conjunct2, THEN conjunct2, THEN conjunct1] s r
  have a: "requests (snd (answer_question echo_llm ''We  agreed\<newline> to ship'' ''Who?'' fresh_client))
     = [(question_prompt,
         ''Meeting transcript:\<newline>\<newline>We agreed to ship\<newline>\<newline>Question: Who?'')]"
    by simp
  from h e t k a show ?thesis by simp
qed

text \<open>
  Claim C4. A transcript of at most 800 words makes \<open>generate_summary\<close> issue exactly one
  request. A transcript of more than 1600 words is cut into at least two chunks; the
  words of the chunks, in order, are the words of the transcript, and no chunk has more
  than 800 words. When the call returns, it has issued one request for each chunk, in
  order, then one request on the partial summaries joined by blank lines, and there is
  one partial summary for each chunk. With an endpoint that never raises the call
  returns.
\<close>

theorem generate_summary_requests:
  "(length (split t) \<le> 800 \<longrightarrow>
      requests (snd (generate_summary llm t c))
      = requests c @ [(summary_prompt, transcript_message (if split t = [] then [] else t))])
   \<and> (1600 < length (split t) \<longrightarrow>
        (\<exists>chunks. chunk_transcript t 800 = Inr chunks
           \<and> 2 \<le> length chunks
           \<and> concat (map split chunks) = split t
           \<and> (\<forall>ch \<in> set chunks. length (split ch) \<le> 800)
           \<and> (\<forall>s c'. generate_summary llm t c = (Inr s, c') \<longrightarrow>
                 (\<exists>partial c1.
                    chat_each llm summary_prompt chunks c = (Inr partial, c1)
                    \<and> length partial = length chunks
                    \<and> chat llm summary_prompt
                          (transcript_message (join ''\<newline>\<newline>'' partial)) c1 = (Inr s, c')
                    \<and> requests c'
                        = requests c @ map (\<lambda>ch. (summary_prompt, transcript_message ch)) chunks
                          @ [(summary_prompt, transcript_message (join ''\<newline>\<newline>'' partial))]))
           \<and> (never_raises llm \<longrightarrow> (\<exists>s c'. generate_summary llm t c = (Inr s, c')))))"
proof (intro conjI impI)
  assume "length (split t) \<le> 800"
  then show "requests (snd (generate_summary llm t c))
      = requests c @ [(summary_prompt, transcript_message (if split t = [] then [] else t))]"
    by (rule generate_summary_short)
next
  assume long: "1600 < length (split t)"
  let ?sl = "slices_of 800 (split t)"
  let ?chunks = "map (join '' '') ?sl"
  have ch: "chunk_transcript t 800 = Inr ?chunks" by (rule chunk_transcript_800)
  have "length (split t) \<le> 800 * length ?sl" by (rule length_le_slices_of) simp
  with long have len: "2 \<le> length ?chunks" by simp
  then have ne1: "length ?chunks \<noteq> 1" by simp
  have words: "concat (map split ?chunks) = split t"
    by (simp only: split_chunks) (simp add: concat_slices_of)
  have bound: "\<forall>ch \<in> set ?chunks. length (split ch) \<le> 800"
  proof
    fix ch assume "ch \<in> set ?chunks"
    then obtain ws where ws: "ws \<in> set ?sl" "ch = join '' '' ws" by auto
    then have "split ch \<in> set (map split ?chunks)" by force
    then have "split ch \<in> set ?sl" by (simp only: split_chunks)
    from slices_of_bounded [OF this] show "length (split ch) \<le> 800" by simp
  qed
  have requests: "\<forall>s c'. generate_summary llm t c = (Inr s, c') \<longrightarrow>
                 (\<exists>partial c1.
                    chat_each llm summary_prompt ?chunks c = (Inr partial, c1)
                    \<and> length partial = length ?chunks
                    \<and> chat llm summary_prompt
                          (transcript_message (join ''\<newline>\<newline>'' partial)) c1 = (Inr s, c')
                    \<and> requests c'
                        = requests c @ map (\<lambda>ch. (summary_prompt, transcript_message ch)) ?chunks
                          @ [(summary_prompt, transcript_message (join ''\<newline>\<newline>'' partial))])"
    using generate_summary_long [OF ne1 ch] by blast
  have returns: "never_raises llm \<longrightarrow> (\<exists>s c'. generate_summary llm t c = (Inr s, c'))"
  proof
    assume nr: "never_raises llm"
    from chat_each_never_raises [OF nr] obtain ps c1 where
      p: "chat_each llm summary_prompt ?chunks c = (Inr ps, c1)" by blast
    from chat_never_raises [OF nr] obtain s c' where
      "chat llm summary_prompt (transcript_message (join ''\<newline>\<newline>'' ps)) c1 = (Inr s, c')"
      by blast
    with p ne1 have "generate_summary llm t c = (Inr s, c')"
      by (simp add: generate_summary_def ch Let_def)
    then show "\<exists>s c'. generate_summary llm t c = (Inr s, c')" by blast
  qed
  from ch len words bound requests returns
  show "\<exists>chunks. chunk_transcript t 800 = Inr chunks
           \<and> 2 \<le> length chunks
           \<and> concat (map split chunks) = split t
           \<and> (\<forall>ch \<in> set chunks. length (split ch) \<le> 800)
           \<and> (\<forall>s c'. generate_summary llm t c = (Inr s, c') \<longrightarrow>
                 (\<exists>partial c1.
                    chat_each llm summary_prompt chunks c = (Inr partial, c1)
                    \<and> length partial = length chunks
                    \<and> chat llm summary_prompt
                          (transcript_message (join ''\<newline>\<newline>'' partial)) c1 = (Inr s, c')
                    \<and> requests c'
                        = requests c @ map (\<lambda>ch. (summary_prompt, transcript_message ch)) chunks
                          @ [(summary_prompt, transcript_message (join ''\<newline>\<newline>'' partial))]))
           \<and> (never_raises llm \<longrightarrow> (\<exists>s c'. generate_summary llm t c = (Inr s, c')))"
    by blast
qed

theorem generate_summary_requests_witness:
  "length (split ''We agreed to ship the feature Friday'') \<le> 800
   \<and> requests (snd (generate_summary echo_llm ''We agreed to ship the feature Friday'' fresh_client))
       = [(summary_prompt, transcript_message ''We agreed to ship the feature Friday'')]
   \<and> 1600 < length (split (words_then 1601 []))
   \<and> never_raises echo_llm
   \<and> (\<exists>chunks. chunk_transcript (words_then 1601 []) 800 = Inr chunks
          \<and> 2 \<le> length chunks
          \<and> concat (map split chunks) = split (words_then 1601 [])
          \<and> (\<exists>s c'. generate_summary echo_llm (words_then 1601 []) fresh_client = (Inr s, c')))"
proof -
  have sp: "split ''We agreed to ship the feature Friday''
            = [''We'', ''agreed'', ''to'', ''ship'', ''the'', ''feature'', ''Friday'']"
    by code_simp
  then have short: "length (split ''We agreed to ship the feature Friday'') \<le> 800" by simp
  have long: "1600 < length (split (words_then 1601 []))"
    by (simp add: split_words_then')
  have nr: "never_raises echo_llm" by (simp add: never_raises_def echo_llm_def)
  have r: "requests fresh_client = []" by (simp add: fresh_client_def)
  from generate_summary_requests
         [of "''We agreed to ship the feature Friday''" echo_llm fresh_client,
          THEN conjunct1, rule_format, OF short] sp r
  have one: "requests (snd (generate_summary echo_llm ''We agreed to ship the feature Friday'' fresh_client))
       = [(summary_prompt, transcript_message ''We agreed to ship the feature Friday'')]"
    by simp
  from generate_summary_requests
         [of "words_then 1601 []" echo_llm fresh_client, THEN conjunct2, rule_format, OF long] nr
  have "\<exists>chunks. chunk_transcript (words_then 1601 []) 800 = Inr chunks
          \<and> 2 \<le> length chunks
          \<and> concat (map split chunks) = split (words_then 1601 [])
          \<and> (\<exists>s c'. generate_summary echo_llm (words_then 1601 []) fresh_client = (Inr s, c'))"
    by blast
  with short one long nr show ?thesis by blast
qed

text \<open>
  Claim C3 at its failing input. The endpoint returns 2000 opening brackets. Cleaning
  leaves the text as it is, \<open>json.loads\<close> raises \<open>RecursionError\<close>, the \<open>except\<close> clause
  catches \<open>JSONDecodeError\<close> only, and so \<open>extract_key_points\<close> and
  \<open>extract_action_items\<close> raise instead of returning the lines of the fallback.
\<close>

theorem extract_raises_on_deep_nesting:
  "chat (canned_llm deep_answer) key_points_prompt
       (''Meeting transcript:\<newline>\<newline>'' @ ''We agreed'') fresh_client
     = (Inr deep_answer,
        \<lparr>service = (),
           requests = [(key_points_prompt, ''Meeting transcript:\<newline>\<newline>'' @ ''We agreed'')]\<rparr>)
   \<and> nested_loads (clean_response deep_answer) = Inl RecursionError
   \<and> parse_json_list nested_loads deep_answer = Inl RecursionError
   \<and> extract_key_points (canned_llm deep_answer) nested_loads ''We agreed'' fresh_client
     = (Inl RecursionError,
        \<lparr>service = (),
           requests = [(key_points_prompt, ''Meeting transcript:\<newline>\<newline>'' @ ''We agreed'')]\<rparr>)
   \<and> extract_action_items (canned_llm deep_answer) nested_loads ''We agreed'' fresh_client
     = (Inl RecursionError,
        \<lparr>service = (),
           requests = [(action_items_prompt, ''Meeting transcript:\<newline>\<newline>'' @ ''We agreed'')]\<rparr>)"
proof -
  have t: "truncated ''We agreed'' = ''We agreed''" by code_simp
  have p: "parse_json_list nested_loads deep_answer = Inl RecursionError"
    by (simp add: parse_json_list_def deep_answer_raises)
  show ?thesis
    by (simp add: extract_key_points_def extract_action_items_def t p canned_chat
        deep_answer_raises transcript_message_def)
qed

text \<open>
  Claim C7. A run of \<open>process_audio\<close> that does not end with the meeting processed
  leaves the store as it was; a run that ends with the meeting processed has a
  transcription with a text that is not blank and a \<open>process_meeting\<close> that returned.
  When the transcription text is empty or only whitespace, the run ends with
  \<open>No speech detected\<close> and the whole state is as before: no request was issued and
  nothing was stored.
\<close>

theorem process_audio_persists_last:
  assumes "process_audio sv path w = (out, w')"
  shows "(out \<noteq> MeetingProcessed \<longrightarrow> store w' = store w)
       \<and> (out = MeetingProcessed \<longrightarrow>
            (\<exists>result ai c'.
               transcribe_file (whisper_model sv) path = Inr result
               \<and> strip (text_of result) \<noteq> []
               \<and> process_meeting (chat_endpoint sv) (json_decoder sv) (text_of result) (llm_client w)
                   = (Inr ai, c')))
       \<and> (\<forall>result.
             \<not> (case sf_info sv path of None \<Rightarrow> False | Some duration \<Rightarrow> duration < 1)
             \<and> transcribe_file (whisper_model sv) path = Inr result
             \<and> strip (text_of result) = [] \<longrightarrow>
             out = NoSpeechDetected \<and> w' = w)"
  using assms
  by (auto simp: process_audio_def Let_def split: if_splits sum.splits prod.splits option.splits)

theorem process_audio_persists_last_witness:
  "process_audio (hearing ''   '') ''uploads/a.wav'' empty_world = (NoSpeechDetected, empty_world)
   \<and> \<not> (case sf_info (hearing ''   '') ''uploads/a.wav'' of None \<Rightarrow> False
          | Some duration \<Rightarrow> duration < 1)
   \<and> transcribe_file (whisper_model (hearing ''   '')) ''uploads/a.wav''
       = Inr \<lparr>text_of = [], segments = [], language = ''en''\<rparr>
   \<and> strip (text_of \<lparr>text_of = [], segments = [], language = ''en''\<rparr>) = []
   \<and> NoSpeechDetected \<noteq> MeetingProcessed
   \<and> store empty_world = store empty_world
   \<and> fst (process_audio (hearing spoken_words) ''uploads/a.wav'' empty_world) = MeetingProcessed
   \<and> (\<exists>result ai c'.
         transcribe_file (whisper_model (hearing spoken_words)) ''uploads/a.wav'' = Inr result
         \<and> strip (text_of result) \<noteq> []
         \<and> process_meeting (chat_endpoint (hearing spoken_words))
               (json_decoder (hearing spoken_words)) (text_of result) (llm_client empty_world)
             = (Inr ai, c'))"
proof -
  have e: "strip (text_of \<lparr>text_of = [], segments = [], language = ''en''\<rparr>) = []"
    by (simp add: strip_def)
  have run: "process_audio (hearing spoken_words) ''uploads/a.wav'' empty_world
             = (MeetingProcessed,
                snd (process_audio (hearing spoken_words) ''uploads/a.wav'' empty_world))"
    using spoken_run by (simp add: prod_eq_iff)
  note silent = process_audio_persists_last [OF silent_run]
  note spoken = process_audio_persists_last [OF run]
  from spoken have "\<exists>result ai c'.
         transcribe_file (whisper_model (hearing spoken_words)) ''uploads/a.wav'' = Inr result
         \<and> strip (text_of result) \<noteq> []
         \<and> process_meeting (chat_endpoint (hearing spoken_words))
               (json_decoder (hearing spoken_words)) (text_of result) (llm_client empty_world)
             = (Inr ai, c')"
    by blast
  with silent silent_run silent_heard e spoken_run show ?thesis by simp
qed



end
